theory Spec2Isabelle
  imports Main "HOL-Library.AList"
begin

section \<open>Python strings\<close>

text \<open>
  Strings are \<^typ>\<open>string\<close>; the characters are those of ASCII, so the character classes
  below are the ASCII part of what Python's \<^verbatim>\<open>str\<close> methods and \<^verbatim>\<open>re\<close> classes accept.
\<close>

definition ord :: "char \<Rightarrow> nat" where
  "ord c = of_char c"

definition is_digit :: "char \<Rightarrow> bool" where
  "is_digit c = (48 \<le> ord c \<and> ord c \<le> 57)"

definition is_upper :: "char \<Rightarrow> bool" where
  "is_upper c = (65 \<le> ord c \<and> ord c \<le> 90)"

definition is_lower :: "char \<Rightarrow> bool" where
  "is_lower c = (97 \<le> ord c \<and> ord c \<le> 122)"

definition is_alnum :: "char \<Rightarrow> bool" where
  "is_alnum c = (is_lower c \<or> is_upper c \<or> is_digit c)"

text \<open>\<^verbatim>\<open>str.isspace\<close> and the class \<^verbatim>\<open>\s\<close>: tab to carriage return, the four separators, space.\<close>

definition is_space :: "char \<Rightarrow> bool" where
  "is_space c = ((9 \<le> ord c \<and> ord c \<le> 13) \<or> (28 \<le> ord c \<and> ord c \<le> 32))"

definition lower_char :: "char \<Rightarrow> char" where
  "lower_char c = (if is_upper c then char_of (ord c + 32) else c)"

definition lower :: "string \<Rightarrow> string" where
  "lower s = map lower_char s"

definition startswith :: "string \<Rightarrow> string \<Rightarrow> bool" where
  "startswith s pre = (take (length pre) s = pre)"

definition endswith :: "string \<Rightarrow> string \<Rightarrow> bool" where
  "endswith s suf = (length suf \<le> length s \<and> drop (length s - length suf) s = suf)"

text \<open>\<^verbatim>\<open>sub in s\<close>.\<close>

fun contains :: "string \<Rightarrow> string \<Rightarrow> bool" where
  "contains [] sub = (sub = [])"
| "contains (c # s) sub = (startswith (c # s) sub \<or> contains s sub)"

text \<open>\<^verbatim>\<open>s.strip(chars)\<close>, the characters given as a predicate; \<^verbatim>\<open>s.strip()\<close> strips white space.\<close>

definition strip_chars :: "(char \<Rightarrow> bool) \<Rightarrow> string \<Rightarrow> string" where
  "strip_chars p s = rev (dropWhile p (rev (dropWhile p s)))"

definition strip :: "string \<Rightarrow> string" where
  "strip s = strip_chars is_space s"

text \<open>\<^verbatim>\<open>s.split(sep)\<close> at a one-character separator: never empty, its head is \<^verbatim>\<open>s.split(sep)[0]\<close>.\<close>

fun split :: "char \<Rightarrow> string \<Rightarrow> string list" where
  "split sep [] = [[]]"
| "split sep (c # s) =
     (if c = sep then [] # split sep s
      else (case split sep s of [] \<Rightarrow> [[c]] | x # xs \<Rightarrow> (c # x) # xs))"

text \<open>\<^verbatim>\<open>s.isdigit()\<close> is false on the empty string; \<^verbatim>\<open>int(s)\<close> is read where it holds.\<close>

definition isdigit :: "string \<Rightarrow> bool" where
  "isdigit s = (s \<noteq> [] \<and> list_all is_digit s)"

definition int_of_digits :: "string \<Rightarrow> nat" where
  "int_of_digits s = foldl (\<lambda>n c. 10 * n + (ord c - 48)) 0 s"

section \<open>The fragment of \<^verbatim>\<open>re\<close> that the patterns use\<close>

text \<open>
  Every pattern of the program is a sequence of single characters and character classes,
  each taken once, or repeated greedily (\<^verbatim>\<open>*\<close>; \<^verbatim>\<open>+\<close> is once and then \<^verbatim>\<open>*\<close>), with one
  capture group and, in one pattern, a final \<^verbatim>\<open>$\<close>. The flag of an item says whether it
  stands inside the group. A repetition takes as many characters as it can and gives them
  back one at a time when the rest of the pattern fails, as the backtracking matcher does.
\<close>

datatype cls = Lit char | ILit char | Digit | Space | Alnum | UrlSafe

fun cls_ok :: "cls \<Rightarrow> char \<Rightarrow> bool" where
  "cls_ok (Lit a) c = (c = a)"
| "cls_ok (ILit a) c = (lower_char c = lower_char a)"
| "cls_ok Digit c = is_digit c"
| "cls_ok Space c = is_space c"
| "cls_ok Alnum c = is_alnum c"
| "cls_ok UrlSafe c = (is_alnum c \<or> c = CHR ''_'' \<or> c = CHR ''-'')"

datatype item = One cls bool | Star cls bool | Eos

type_synonym pattern = "item list"

definition grab :: "bool \<Rightarrow> string \<Rightarrow> char \<Rightarrow> string" where
  "grab g cap c = (if g then cap @ [c] else cap)"

text \<open>
  \<open>rx p s cap\<close> matches \<open>p\<close> at the start of \<open>s\<close> and returns the text of the group;
  \<^verbatim>\<open>$\<close> holds at the end and before a newline that ends the string.
\<close>

fun rx :: "pattern \<Rightarrow> string \<Rightarrow> string \<Rightarrow> string option" where
  "rx [] s cap = Some cap"
| "rx (Eos # p) s cap = (if s = [] \<or> s = [CHR 0x0A] then rx p s cap else None)"
| "rx (One k g # p) [] cap = None"
| "rx (One k g # p) (c # s) cap = (if cls_ok k c then rx p s (grab g cap c) else None)"
| "rx (Star k g # p) [] cap = rx p [] cap"
| "rx (Star k g # p) (c # s) cap =
     (if cls_ok k c
      then (case rx (Star k g # p) s (grab g cap c) of
              Some r \<Rightarrow> Some r
            | None \<Rightarrow> rx p (c # s) cap)
      else rx p (c # s) cap)"

text \<open>\<^verbatim>\<open>re.match(p, s)\<close> and \<^verbatim>\<open>re.search(p, s)\<close>, each giving \<^verbatim>\<open>group(1)\<close> of the match.\<close>

definition re_match :: "pattern \<Rightarrow> string \<Rightarrow> string option" where
  "re_match p s = rx p s []"

fun re_search :: "pattern \<Rightarrow> string \<Rightarrow> string option" where
  "re_search p [] = rx p [] []"
| "re_search p (c # s) = (case rx p (c # s) [] of Some r \<Rightarrow> Some r | None \<Rightarrow> re_search p s)"

definition lit :: "string \<Rightarrow> pattern" where
  "lit s = map (\<lambda>c. One (Lit c) False) s"

definition ilit :: "string \<Rightarrow> pattern" where
  "ilit s = map (\<lambda>c. One (ILit c) False) s"

definition many1 :: "cls \<Rightarrow> bool \<Rightarrow> pattern" where
  "many1 k g = [One k g, Star k g]"

text \<open>
  Two notions for the statements about the path fallback: a string without the newline
  that may end it, and the longest run of characters of a class at the end of a string.
\<close>

definition chomp :: "string \<Rightarrow> string" where
  "chomp s = (if s \<noteq> [] \<and> last s = CHR 0x0A then butlast s else s)"

definition trailing_run :: "(char \<Rightarrow> bool) \<Rightarrow> string \<Rightarrow> string" where
  "trailing_run p s = rev (takeWhile p (rev s))"

section \<open>The world outside the program\<close>

text \<open>
  The file system is a table of regular files with their contents and a list of
  directories. Every effect of a run is appended to a trace, and the number of HTTP
  requests made so far is counted: the server's answer may depend on it, so that two
  requests for one address need not be answered alike.
\<close>

datatype level = DEBUG | INFO | WARNING | ERROR | CRITICAL

type_synonym quality = string

datatype event =
    Log level string
  | Http_get string
  | Makedirs string
  | Open_wb string
  | Write string string
  | Extractall string string
  | Normalize_video "string list" string quality bool
  | Normalize_audio "string list" string bool
  | Merge string string string quality bool
  | Move string string
  | Rmtree string

record world =
  files :: "(string \<times> string) list"
  dirs :: "string list"
  requests :: nat
  trace :: "event list"

text \<open>
  A logging call is recorded with its level and the message as the source writes it:
  the placeholders of an f-string are not filled in, and a leading pictogram is left out.
\<close>

definition log :: "level \<Rightarrow> string \<Rightarrow> world \<Rightarrow> world" where
  "log l m w = w\<lparr>trace := trace w @ [Log l m]\<rparr>"

definition emit :: "event \<Rightarrow> world \<Rightarrow> world" where
  "emit e w = w\<lparr>trace := trace w @ [e]\<rparr>"

definition isfile :: "world \<Rightarrow> string \<Rightarrow> bool" where
  "isfile w p = (map_of (files w) p \<noteq> None)"

definition isdir :: "world \<Rightarrow> string \<Rightarrow> bool" where
  "isdir w p = (p \<in> set (dirs w))"

definition exists :: "world \<Rightarrow> string \<Rightarrow> bool" where
  "exists w p = (isfile w p \<or> isdir w p)"

record response =
  status_code :: nat
  headers :: "(string \<times> string) list"
  resp_text :: string
  chunks :: "string list"
  stream_raises :: bool

datatype http_result = Conn_error | Response response

record session =
  jar :: "(string \<times> string) list"

record parse_result =
  scheme :: string
  netloc :: string
  path :: string

text \<open>
  What the program takes from its libraries and from the machine: \<^verbatim>\<open>urlparse\<close>, the
  server behind \<^verbatim>\<open>session.get\<close> (\<open>Conn_error\<close> when the call raises), the archive reader
  (\<open>None\<close> for \<^verbatim>\<open>BadZipFile\<close>, else the members with their contents), and whether
  \<^verbatim>\<open>shutil.rmtree\<close> raises \<^verbatim>\<open>OSError\<close> on a directory.
\<close>

record env =
  urlparse :: "string \<Rightarrow> parse_result"
  http :: "session \<Rightarrow> nat \<Rightarrow> string \<Rightarrow> http_result"
  unzip :: "string \<Rightarrow> (string \<times> string) list option"
  rmtree_raises :: "string \<Rightarrow> bool"

definition session_get :: "env \<Rightarrow> session \<Rightarrow> world \<Rightarrow> string \<Rightarrow> http_result \<times> world" where
  "session_get e sess w url =
     (http e sess (requests w) url,
      w\<lparr>requests := Suc (requests w), trace := trace w @ [Http_get url]\<rparr>)"

text \<open>\<^verbatim>\<open>r.headers.get(name, default)\<close>: the names of headers are compared without case.\<close>

definition header_get :: "response \<Rightarrow> string \<Rightarrow> string option" where
  "header_get r name = map_of (map (\<lambda>(k, v). (lower k, v)) (headers r)) (lower name)"

section \<open>Identifier Resolver: \<^verbatim>\<open>get_id_and_type\<close>\<close>

datatype id_type = Sco_id | Path_id

definition dquote :: string where
  "dquote = [CHR 0x22]"

text \<open>
  The four patterns of the source, in its order, all searched with \<^verbatim>\<open>re.IGNORECASE\<close>:
  \<^verbatim>\<open>"sco-id"\s*:\s*"(\d+)"\<close>, \<^verbatim>\<open>sco-id=(\d+)\<close>, \<^verbatim>\<open>recording-id=(\d+)\<close>, \<^verbatim>\<open>scoid:(\d+)\<close>.
\<close>

definition patterns :: "pattern list" where
  "patterns =
     [ilit (dquote @ ''sco-id'' @ dquote) @ [Star Space False] @ ilit '':'' @ [Star Space False]
        @ ilit dquote @ many1 Digit True @ ilit dquote,
      ilit ''sco-id='' @ many1 Digit True,
      ilit ''recording-id='' @ many1 Digit True,
      ilit ''scoid:'' @ many1 Digit True]"

text \<open>The loop over the patterns: the first pattern that is found in the text decides.\<close>

fun first_found :: "pattern list \<Rightarrow> string \<Rightarrow> string option" where
  "first_found [] t = None"
| "first_found (p # ps) t =
     (case re_search p t of Some found_id \<Rightarrow> Some found_id | None \<Rightarrow> first_found ps t)"

text \<open>\<^verbatim>\<open>response.raise_for_status()\<close> raises on the statuses 400 to 599.\<close>

definition raises_for_status :: "response \<Rightarrow> bool" where
  "raises_for_status r = (400 \<le> status_code r \<and> status_code r < 600)"

text \<open>The path fallback: the pattern \<^verbatim>\<open>([a-zA-Z0-9_-]+)$\<close> searched in the stripped path.\<close>

definition path_part :: "env \<Rightarrow> string \<Rightarrow> string" where
  "path_part e meeting_url = strip_chars (\<lambda>c. c = CHR ''/'') (path (urlparse e meeting_url))"

definition path_fallback :: "env \<Rightarrow> world \<Rightarrow> string \<Rightarrow> (string \<times> id_type) option \<times> world" where
  "path_fallback e w meeting_url =
     (case re_search (many1 UrlSafe True @ [Eos]) (hd (split CHR ''?'' (path_part e meeting_url))) of
        Some found_id \<Rightarrow> (Some (found_id, Path_id), log INFO ''Using Path ID: {found_id}'' w)
      | None \<Rightarrow> (None, w))"

definition get_id_and_type ::
  "env \<Rightarrow> session \<Rightarrow> world \<Rightarrow> string \<Rightarrow> (string \<times> id_type) option \<times> world" where
  "get_id_and_type e sess w meeting_url =
     (let (r, w1) = session_get e sess (log INFO ''Analyzing URL: {meeting_url}'' w) meeting_url
      in case r of
           Conn_error \<Rightarrow> path_fallback e (log WARNING ''Initial analysis issue: {e}'' w1) meeting_url
         | Response resp \<Rightarrow>
             if raises_for_status resp
             then path_fallback e (log WARNING ''Initial analysis issue: {e}'' w1) meeting_url
             else (case first_found patterns (resp_text resp) of
                     Some found_id \<Rightarrow>
                       (Some (found_id, Sco_id), log INFO ''Found SCO-ID: {found_id}'' w1)
                   | None \<Rightarrow> path_fallback e w1 meeting_url))"

section \<open>Archive Locator: \<^verbatim>\<open>get_account_id\<close> and \<^verbatim>\<open>construct_zip_urls\<close>\<close>

text \<open>The pattern \<^verbatim>\<open>account_id\s*=\s*(\d+)\<close>, searched with no flag; any exception gives \<open>None\<close>.\<close>

definition get_account_id :: "env \<Rightarrow> session \<Rightarrow> world \<Rightarrow> string \<Rightarrow> string option \<times> world" where
  "get_account_id e sess w meeting_url =
     (let (r, w1) = session_get e sess w meeting_url
      in case r of
           Conn_error \<Rightarrow> (None, w1)
         | Response resp \<Rightarrow>
             (re_search (lit ''account_id'' @ [Star Space False] @ lit ''='' @ [Star Space False]
                         @ many1 Digit True) (resp_text resp), w1))"

text \<open>\<^verbatim>\<open>list(dict.fromkeys(urls))\<close>: the keys of a dictionary, in the order of their first insertion.\<close>

definition fromkeys :: "'a list \<Rightarrow> 'a list" where
  "fromkeys xs = foldl (\<lambda>acc x. if x \<in> set acc then acc else acc @ [x]) [] xs"

definition base_of :: "parse_result \<Rightarrow> string" where
  "base_of parsed_url = scheme parsed_url @ ''://'' @ netloc parsed_url"

definition structure_a :: "string \<Rightarrow> string \<Rightarrow> string list" where
  "structure_a base recording_id =
     [base @ ''/'' @ recording_id @ ''/output/'' @ recording_id @ ''.zip?download=zip'',
      base @ ''/'' @ recording_id @ ''/output/output.zip?download=zip'']"

definition structure_b :: "string \<Rightarrow> string \<Rightarrow> string list" where
  "structure_b base recording_id =
     [base @ ''/p'' @ recording_id @ ''/output/'' @ recording_id @ ''.zip?download=zip'',
      base @ ''/p'' @ recording_id @ ''/output/output.zip?download=zip'']"

definition structure_c :: "string \<Rightarrow> string \<Rightarrow> string option \<Rightarrow> string list" where
  "structure_c base recording_id account_id =
     (case account_id of
        None \<Rightarrow> []
      | Some a \<Rightarrow>
          if a = [] then []
          else [base @ ''/content/'' @ a @ ''/'' @ recording_id @ ''-1/output/'' @ recording_id
                  @ ''-1.zip?download=zip'',
                base @ ''/content/'' @ a @ ''/'' @ recording_id @ ''-1/output/output.zip?download=zip''])"

definition construct_zip_urls ::
  "env \<Rightarrow> session \<Rightarrow> world \<Rightarrow> string \<Rightarrow> string \<Rightarrow> id_type \<Rightarrow> string list \<times> world" where
  "construct_zip_urls e sess w meeting_url recording_id id_type =
     (let base = base_of (urlparse e meeting_url);
          (account_id, w1) = get_account_id e sess w meeting_url
      in (fromkeys (structure_a base recording_id @ structure_b base recording_id
                    @ structure_c base recording_id account_id), w1))"

section \<open>Paths and files\<close>

text \<open>\<^verbatim>\<open>os.path\<close> as on POSIX, for two-argument \<^verbatim>\<open>join\<close>, \<^verbatim>\<open>basename\<close> and \<^verbatim>\<open>splitext(p)[0]\<close>.\<close>

definition os_path_join :: "string \<Rightarrow> string \<Rightarrow> string" where
  "os_path_join a b =
     (if startswith b ''/'' then b
      else if a = [] \<or> endswith a ''/'' then a @ b
      else a @ ''/'' @ b)"

definition os_path_basename :: "string \<Rightarrow> string" where
  "os_path_basename p = rev (takeWhile (\<lambda>c. c \<noteq> CHR ''/'') (rev p))"

text \<open>
  The extension starts at the last dot of the last component, unless only dots stand
  in front of it in that component; the root is what is left of the path.
\<close>

definition splitext_root :: "string \<Rightarrow> string" where
  "splitext_root p =
     (let name = os_path_basename p;
          stem = rev (drop 1 (dropWhile (\<lambda>c. c \<noteq> CHR ''.'') (rev name)))
      in if CHR ''.'' \<in> set name \<and> dropWhile (\<lambda>c. c = CHR ''.'') stem \<noteq> []
         then take (length p - length name) p @ stem
         else p)"

datatype error = FileNotFoundError | FileExistsError | IsADirectoryError | ShutilError
  | AttributeError

definition read_file :: "world \<Rightarrow> string \<Rightarrow> error + string" where
  "read_file w p =
     (case map_of (files w) p of
        Some c \<Rightarrow> Inr c
      | None \<Rightarrow> if isdir w p then Inl IsADirectoryError else Inl FileNotFoundError)"

definition write_file :: "string \<Rightarrow> string \<Rightarrow> world \<Rightarrow> world" where
  "write_file p c w = w\<lparr>files := AList.update p c (files w)\<rparr>"

text \<open>\<^verbatim>\<open>os.makedirs(p, exist_ok=True)\<close> raises only where \<open>p\<close> is a regular file.\<close>

definition makedirs :: "world \<Rightarrow> string \<Rightarrow> error + world" where
  "makedirs w p =
     (if isfile w p then Inl FileExistsError
      else Inr ((emit (Makedirs p) w)\<lparr>dirs := (if isdir w p then dirs w else dirs w @ [p])\<rparr>))"

definition within :: "string \<Rightarrow> string \<Rightarrow> bool" where
  "within d p = (p = d \<or> startswith p (if endswith d ''/'' then d else d @ ''/''))"

definition rmtree :: "string \<Rightarrow> world \<Rightarrow> world" where
  "rmtree d w =
     w\<lparr>files := filter (\<lambda>(p, c). \<not> within d p) (files w),
       dirs := filter (\<lambda>p. \<not> within d p) (dirs w)\<rparr>"

text \<open>\<^verbatim>\<open>os.listdir(d)\<close>: the names of the files and directories that stand directly in \<open>d\<close>.\<close>

definition child_name :: "string \<Rightarrow> string \<Rightarrow> string list" where
  "child_name d p =
     (let pre = (if endswith d ''/'' then d else d @ ''/''); n = drop (length pre) p
      in if startswith p pre \<and> n \<noteq> [] \<and> CHR ''/'' \<notin> set n then [n] else [])"

definition os_listdir :: "world \<Rightarrow> string \<Rightarrow> error + string list" where
  "os_listdir w d =
     (if isdir w d then Inr (concat (map (child_name d) (map fst (files w) @ dirs w)))
      else Inl FileNotFoundError)"

text \<open>
  \<^verbatim>\<open>shutil.move(src, dst)\<close> of a regular file: into \<open>dst\<close> when that is a directory, where
  an entry of the same name makes it raise; else onto \<open>dst\<close>.
\<close>

definition shutil_move :: "world \<Rightarrow> string \<Rightarrow> string \<Rightarrow> error + world" where
  "shutil_move w src dst =
     (case map_of (files w) src of
        None \<Rightarrow> Inl FileNotFoundError
      | Some c \<Rightarrow>
          let real_dst = (if isdir w dst then os_path_join dst (os_path_basename src) else dst)
          in if isdir w dst \<and> exists w real_dst then Inl ShutilError
             else Inr (write_file real_dst c
                        ((emit (Move src dst) w)\<lparr>files := AList.delete src (files w)\<rparr>)))"

section \<open>Stream Classifier: \<^verbatim>\<open>find_media_streams\<close>\<close>

type_synonym streams = "(string \<times> string list) list"

text \<open>The dictionary keeps its keys in the order of their first insertion.\<close>

definition streams_get :: "streams \<Rightarrow> string \<Rightarrow> string list option" where
  "streams_get st k = map_of st k"

definition streams_append :: "streams \<Rightarrow> string \<Rightarrow> string \<Rightarrow> streams" where
  "streams_append st k v =
     AList.update k ((case map_of st k of None \<Rightarrow> [] | Some l \<Rightarrow> l) @ [v]) st"

text \<open>
  The two tests of the scanning loop: the name ends in \<^verbatim>\<open>.flv\<close> without regard to case,
  and the pattern \<^verbatim>\<open>([a-zA-Z0-9]+)_\<close> matches at its start; the key is the group in lower case.
\<close>

definition stream_key :: "string \<Rightarrow> string option" where
  "stream_key filename =
     (if endswith (lower filename) ''.flv''
      then (case re_match (many1 Alnum True @ lit ''_'') filename of
              Some g \<Rightarrow> Some (lower g)
            | None \<Rightarrow> None)
      else None)"

definition scan_file :: "string \<Rightarrow> streams \<Rightarrow> string \<Rightarrow> streams" where
  "scan_file extract_folder st filename =
     (case stream_key filename of
        Some k \<Rightarrow> streams_append st k (os_path_join extract_folder filename)
      | None \<Rightarrow> st)"

definition sort_key_of :: "string \<Rightarrow> nat" where
  "sort_key_of f =
     (let suffix = last (split CHR ''_'' (splitext_root (os_path_basename f)))
      in if isdigit suffix then int_of_digits suffix else 0)"

text \<open>\<^verbatim>\<open>sorted(xs, key=...)\<close> is a stable sort, as \<^const>\<open>sort_key\<close> is.\<close>

definition classify :: "string \<Rightarrow> string list \<Rightarrow> streams" where
  "classify extract_folder listing =
     map (\<lambda>(stream_name, fs). (stream_name, sort_key sort_key_of fs))
       (foldl (scan_file extract_folder) [] listing)"

definition find_media_streams :: "world \<Rightarrow> string \<Rightarrow> (error + streams) \<times> world" where
  "find_media_streams w extract_folder =
     (let w1 = log INFO ''Scanning directory for media streams...'' w
      in case os_listdir w1 extract_folder of
           Inl err \<Rightarrow> (Inl err, w1)
         | Inr listing \<Rightarrow>
             let st = classify extract_folder listing
             in (Inr st,
                 if streams_get st ''cameravoip'' = None \<or> streams_get st ''cameravoip'' = Some []
                 then log WARNING ''No separate camera/audio stream found. Audio will be extracted from the screenshare stream.'' w1
                 else w1))"

section \<open>Archive Fetcher: \<^verbatim>\<open>download_zip_file\<close>\<close>

text \<open>
  \<^verbatim>\<open>int(s)\<close> of a string: white space around, a sign, and digits in groups that single
  underscores separate; \<open>None\<close> is \<^verbatim>\<open>ValueError\<close>.
\<close>

definition py_int :: "string \<Rightarrow> int option" where
  "py_int s =
     (let t = strip s;
          (neg, d) = (case t of
                        [] \<Rightarrow> (False, [])
                      | c # r \<Rightarrow> if c = CHR ''-'' then (True, r)
                                 else if c = CHR ''+'' then (False, r) else (False, t));
          groups = split CHR ''_'' d
      in if list_all isdigit groups
         then Some (if neg then - int (int_of_digits (concat groups))
                    else int (int_of_digits (concat groups)))
         else None)"

text \<open>The loop over \<^verbatim>\<open>r.iter_content\<close>: each chunk is appended to the open file.\<close>

fun write_chunks :: "string \<Rightarrow> string list \<Rightarrow> world \<Rightarrow> world" where
  "write_chunks output_path [] w = w"
| "write_chunks output_path (chunk # cs) w =
     write_chunks output_path cs
       (emit (Write output_path chunk)
         (write_file output_path (case map_of (files w) output_path of
                                    None \<Rightarrow> chunk | Some c \<Rightarrow> c @ chunk) w))"

text \<open>
  The two values that the function reads from the headers:
  \<^verbatim>\<open>content_type = r.headers.get('Content-Type', '').lower()\<close> and
  \<^verbatim>\<open>total_size = int(r.headers.get('content-length', 0))\<close>, \<open>None\<close> where \<^verbatim>\<open>int\<close> raises.
\<close>

definition content_type :: "response \<Rightarrow> string" where
  "content_type r = lower (case header_get r ''Content-Type'' of None \<Rightarrow> [] | Some v \<Rightarrow> v)"

definition total_size :: "response \<Rightarrow> int option" where
  "total_size r = (case header_get r ''content-length'' of None \<Rightarrow> Some 0 | Some v \<Rightarrow> py_int v)"

text \<open>
  Opening the file for writing is taken to succeed; the progress reporter has no effect
  on the world. Every exception ends in the handler, which logs and returns \<open>False\<close>.
\<close>

definition download_zip_file ::
  "env \<Rightarrow> session \<Rightarrow> world \<Rightarrow> string \<Rightarrow> string \<Rightarrow> bool \<times> world" where
  "download_zip_file e sess w zip_url output_path =
     (let (r, w1) = session_get e sess w zip_url
      in case r of
           Conn_error \<Rightarrow> (False, log ERROR ''Error downloading {zip_url}: {e}'' w1)
         | Response resp \<Rightarrow>
             if status_code resp \<noteq> 200 then (False, w1)
             else if contains (content_type resp) ''html''
             then (False, log WARNING ''Url returned HTML instead of ZIP. Likely login required or wrong link.'' w1)
             else if total_size resp = None
             then (False, log ERROR ''Error downloading {zip_url}: {e}'' w1)
             else
               let w2 = write_chunks output_path (chunks resp)
                          (write_file output_path [] (emit (Open_wb output_path) w1))
               in if stream_raises resp
                  then (False, log ERROR ''Error downloading {zip_url}: {e}'' w2)
                  else (True, w2))"

section \<open>Cleanup: \<^verbatim>\<open>cleanup_temp_directory\<close>\<close>

text \<open>A removal that raises is taken to leave the directory as it was.\<close>

definition cleanup_temp_directory :: "env \<Rightarrow> world \<Rightarrow> string \<Rightarrow> world" where
  "cleanup_temp_directory e w dir_path =
     (let w1 = log DEBUG ''Cleaning up temporary directory: {dir_path}'' w
      in if isdir w1 dir_path
         then (let w2 = emit (Rmtree dir_path) w1
               in if rmtree_raises e dir_path
                  then log WARNING ''Could not clean up temp directory: {e}'' w2
                  else log DEBUG ''Removed temp directory: {dir_path}'' (rmtree dir_path w2))
         else w1)"

section \<open>Session: \<^verbatim>\<open>setup_session\<close>\<close>

text \<open>One round of the loop over \<^verbatim>\<open>cookie_str.split(';')\<close>.\<close>

definition set_cookie :: "session \<Rightarrow> string \<Rightarrow> session" where
  "set_cookie sess cookie =
     (if CHR ''='' \<in> set cookie
      then (let c = strip cookie;
                name = takeWhile (\<lambda>x. x \<noteq> CHR ''='') c;
                val = drop 1 (dropWhile (\<lambda>x. x \<noteq> CHR ''='') c)
            in sess\<lparr>jar := AList.update (strip name) (strip val) (jar sess)\<rparr>)
      else sess)"

definition setup_session :: "world \<Rightarrow> string option \<Rightarrow> error + session" where
  "setup_session w cookie_str =
     (case cookie_str of
        None \<Rightarrow> Inr \<lparr>jar = []\<rparr>
      | Some cs \<Rightarrow>
          if cs = [] then Inr \<lparr>jar = []\<rparr>
          else if exists w cs
          then (case read_file w cs of
                  Inl err \<Rightarrow> Inl err
                | Inr c \<Rightarrow> Inr (foldl set_cookie \<lparr>jar = []\<rparr> (split CHR '';'' (strip c))))
          else Inr (foldl set_cookie \<lparr>jar = []\<rparr> (split CHR '';'' cs)))"

section \<open>Reconstruction Orchestrator: \<^verbatim>\<open>process_single_url\<close>\<close>

text \<open>
  The arguments of the job that come from modules outside this file. The file operations
  (module \<^verbatim>\<open>file_operations\<close>) give the cookies, the sanitizer of file names and the
  download directory: they are taken as they come, and what a statement needs of the
  sanitizer is written in the statement. \<^verbatim>\<open>NormalizedMedia\<close> is the pair of the two
  intermediate paths.
\<close>

record file_ops =
  cookies :: "string option"
  safe_filename :: "string \<Rightarrow> string"
  get_main_download_dir :: string

record normalized_media =
  video_path :: string
  audio_path :: string

text \<open>
  Modelled from the spec: the transcoding collaborator (module \<^verbatim>\<open>ffmpeg_handler\<close>) is an
  argument of the job and is not in this file. The specification gives it three
  operations, each from an ordered sequence of files, or the two intermediate files, to
  one file at a path that it is given, and each answering success or failure only. So an
  operation sees the files, answers success or failure, and may leave a file at its
  output path and nowhere else: the second component of its answer is the content of that
  file, if any, and \<open>leave\<close> puts it there.
\<close>

record ffmpeg_handler =
  normalize_video_stream ::
    "(string \<times> string) list \<Rightarrow> string list \<Rightarrow> string \<Rightarrow> quality \<Rightarrow> bool \<times> string option"
  normalize_audio_stream ::
    "(string \<times> string) list \<Rightarrow> string list \<Rightarrow> string \<Rightarrow> bool \<times> string option"
  merge_normalized_streams ::
    "(string \<times> string) list \<Rightarrow> normalized_media \<Rightarrow> string \<Rightarrow> quality \<Rightarrow> bool \<times> string option"

definition leave :: "string \<Rightarrow> string option \<Rightarrow> world \<Rightarrow> world" where
  "leave out_path c w = (case c of None \<Rightarrow> w | Some x \<Rightarrow> write_file out_path x w)"

datatype outcome = Returned bool | Raised error

definition temp_output_dir_of :: "file_ops \<Rightarrow> string \<Rightarrow> string" where
  "temp_output_dir_of fo recording_id =
     os_path_join (get_main_download_dir fo) (''adobe_connect_'' @ safe_filename fo recording_id)"

definition zip_path_of :: "file_ops \<Rightarrow> string \<Rightarrow> string" where
  "zip_path_of fo recording_id =
     os_path_join (temp_output_dir_of fo recording_id) (safe_filename fo recording_id @ ''.zip'')"

definition output_filename_of :: "file_ops \<Rightarrow> string option \<Rightarrow> string \<Rightarrow> string" where
  "output_filename_of fo custom_filename recording_id =
     (let output_filename =
            (case custom_filename of
               None \<Rightarrow> ''recording_'' @ safe_filename fo recording_id @ ''.mp4''
             | Some n \<Rightarrow> if n = [] then ''recording_'' @ safe_filename fo recording_id @ ''.mp4''
                         else n)
      in if endswith (lower output_filename) ''.mp4'' then output_filename
         else output_filename @ ''.mp4'')"

definition final_video_path_temp_of :: "file_ops \<Rightarrow> string option \<Rightarrow> string \<Rightarrow> string" where
  "final_video_path_temp_of fo custom_filename recording_id =
     os_path_join (temp_output_dir_of fo recording_id)
       (safe_filename fo (output_filename_of fo custom_filename recording_id))"

definition final_video_path_dest_of :: "file_ops \<Rightarrow> string option \<Rightarrow> string \<Rightarrow> string" where
  "final_video_path_dest_of fo custom_filename recording_id =
     os_path_join (get_main_download_dir fo)
       (safe_filename fo (output_filename_of fo custom_filename recording_id))"

text \<open>The loop over the candidate addresses: it ends at the first download that succeeds.\<close>

fun try_zip_urls :: "env \<Rightarrow> session \<Rightarrow> world \<Rightarrow> string list \<Rightarrow> string \<Rightarrow> bool \<times> world" where
  "try_zip_urls e sess w [] zip_path = (False, w)"
| "try_zip_urls e sess w (zip_url # zip_urls) zip_path =
     (case download_zip_file e sess (log INFO ''Trying download from: {zip_url}'' w) zip_url zip_path of
        (True, w1) \<Rightarrow> (True, w1)
      | (False, w1) \<Rightarrow> try_zip_urls e sess w1 zip_urls zip_path)"

text \<open>
  \<^verbatim>\<open>zip_ref.extractall(d)\<close>: each member that is a file is written within \<open>d\<close>. As
  \<^verbatim>\<open>zipfile\<close> does, the name of a member loses its empty, \<^verbatim>\<open>.\<close> and \<^verbatim>\<open>..\<close> components, so
  that it is relative to \<open>d\<close>; a name that ends in a slash is a directory, and the
  directories of the archive are not recorded.
\<close>

definition arcname :: "string \<Rightarrow> string" where
  "arcname n =
     foldr (\<lambda>x acc. if acc = [] then x else x @ ''/'' @ acc)
       (filter (\<lambda>x. x \<noteq> [] \<and> x \<noteq> ''.'' \<and> x \<noteq> ''..'') (split CHR ''/'' n)) []"

definition extract_member :: "string \<Rightarrow> world \<Rightarrow> string \<times> string \<Rightarrow> world" where
  "extract_member d w m =
     (if arcname (fst m) = [] \<or> endswith (fst m) ''/'' then w
      else write_file (os_path_join d (arcname (fst m))) (snd m) w)"

definition extractall :: "string \<Rightarrow> (string \<times> string) list \<Rightarrow> world \<Rightarrow> world" where
  "extractall d members w = foldl (extract_member d) w members"

text \<open>
  The two-pass workflow, from the classification to the end of the job, one definition
  for each pass of the source, the last first. The outcome is what the job returns, or
  the exception that leaves it.
\<close>

text \<open>Pass 2, the final merge, then the move of the video and the cleanup.\<close>

definition final_merge ::
  "env \<Rightarrow> world \<Rightarrow> ffmpeg_handler \<Rightarrow> quality \<Rightarrow> string \<Rightarrow> normalized_media \<Rightarrow> string \<Rightarrow> string
     \<Rightarrow> outcome \<times> world" where
  "final_merge e w3 ffmpeg quality temp_output_dir normalized_media final_video_path_temp
       final_video_path_dest =
     (let (ok_m, out_m) = merge_normalized_streams ffmpeg (files w3) normalized_media
                            final_video_path_temp quality;
          w4 = leave final_video_path_temp out_m
                 (emit (Merge (video_path normalized_media) (audio_path normalized_media)
                          final_video_path_temp quality ok_m) w3)
      in if ok_m
         then (case shutil_move
                      (log INFO ''Moving final video to main download directory...'' w4)
                      final_video_path_temp final_video_path_dest of
                 Inl err \<Rightarrow>
                   (Raised err, log INFO ''Moving final video to main download directory...'' w4)
               | Inr w5 \<Rightarrow>
                   (Returned True,
                    cleanup_temp_directory e
                      (log INFO ''Success! Video saved to: {os.path.abspath(final_video_path_dest)}'' w5)
                      temp_output_dir))
         else (Returned False,
               cleanup_temp_directory e
                 (log CRITICAL ''Failed to create the final video file after all attempts.'' w4)
                 temp_output_dir))"

text \<open>Pass 1.2, the audio stream: the camera files, or the screen files without them.\<close>

definition audio_pass ::
  "env \<Rightarrow> world \<Rightarrow> ffmpeg_handler \<Rightarrow> quality \<Rightarrow> string \<Rightarrow> streams \<Rightarrow> string list
     \<Rightarrow> normalized_media \<Rightarrow> string \<Rightarrow> string \<Rightarrow> outcome \<times> world" where
  "audio_pass e w2 ffmpeg quality temp_output_dir media_streams video_files normalized_media
       final_video_path_temp final_video_path_dest =
     (let audio_files = (case streams_get media_streams ''cameravoip'' of
                           None \<Rightarrow> video_files | Some fs \<Rightarrow> fs);
          (ok_a, out_a) = normalize_audio_stream ffmpeg (files w2) audio_files
                            (audio_path normalized_media);
          w3 = leave (audio_path normalized_media) out_a
                 (emit (Normalize_audio audio_files (audio_path normalized_media) ok_a) w2)
      in if \<not> ok_a
         then (Returned False,
               cleanup_temp_directory e
                 (log CRITICAL ''Failed during audio normalization pass.'' w3) temp_output_dir)
         else final_merge e w3 ffmpeg quality temp_output_dir normalized_media
                final_video_path_temp final_video_path_dest)"

text \<open>Pass 1.1, the video stream.\<close>

definition video_pass ::
  "env \<Rightarrow> world \<Rightarrow> ffmpeg_handler \<Rightarrow> quality \<Rightarrow> string \<Rightarrow> streams \<Rightarrow> string list
     \<Rightarrow> normalized_media \<Rightarrow> string \<Rightarrow> string \<Rightarrow> outcome \<times> world" where
  "video_pass e w1 ffmpeg quality temp_output_dir media_streams video_files normalized_media
       final_video_path_temp final_video_path_dest =
     (let (ok_v, out_v) = normalize_video_stream ffmpeg (files w1) video_files
                            (video_path normalized_media) quality;
          w2 = leave (video_path normalized_media) out_v
                 (emit (Normalize_video video_files (video_path normalized_media) quality ok_v) w1)
      in if \<not> ok_v
         then (Returned False,
               cleanup_temp_directory e
                 (log CRITICAL ''Failed during video normalization pass.'' w2) temp_output_dir)
         else audio_pass e w2 ffmpeg quality temp_output_dir media_streams video_files
                normalized_media final_video_path_temp final_video_path_dest)"

definition two_pass_workflow ::
  "env \<Rightarrow> world \<Rightarrow> ffmpeg_handler \<Rightarrow> quality \<Rightarrow> string \<Rightarrow> string \<Rightarrow> string \<Rightarrow> outcome \<times> world" where
  "two_pass_workflow e w ffmpeg quality temp_output_dir final_video_path_temp final_video_path_dest =
     (case find_media_streams w temp_output_dir of
        (Inl err, w1) \<Rightarrow> (Raised err, w1)
      | (Inr media_streams, w1) \<Rightarrow>
          (case streams_get media_streams ''screenshare'' of
             None \<Rightarrow>
               (Returned False,
                cleanup_temp_directory e
                  (log CRITICAL ''CRITICAL: 'screenshare' stream is missing. Cannot proceed.'' w1)
                  temp_output_dir)
           | Some video_files \<Rightarrow>
               video_pass e w1 ffmpeg quality temp_output_dir media_streams video_files
                 \<lparr>video_path = os_path_join temp_output_dir ''normalized_video.mkv'',
                  audio_path = os_path_join temp_output_dir ''normalized_audio.m4a''\<rparr>
                 final_video_path_temp final_video_path_dest))"

text \<open>
  Download and extraction, entered when no archive stands at \<open>zip_path\<close>: \<open>Some\<close> is the
  outcome of a job that ends here, \<open>None\<close> lets it go on.
\<close>

definition download_and_extract ::
  "env \<Rightarrow> session \<Rightarrow> world \<Rightarrow> string \<Rightarrow> string \<Rightarrow> id_type \<Rightarrow> string \<Rightarrow> string
     \<Rightarrow> outcome option \<times> world" where
  "download_and_extract e sess w url recording_id id_type zip_path temp_output_dir =
     (let (zip_urls, w1) = construct_zip_urls e sess w url recording_id id_type;
          (success, w2) = try_zip_urls e sess w1 zip_urls zip_path
      in if \<not> success then (Some (Returned False), cleanup_temp_directory e w2 temp_output_dir)
         else
           let w3 = log INFO ''Extracting '{os.path.basename(zip_path)}'...'' w2
           in case read_file w3 zip_path of
                Inl err \<Rightarrow> (Some (Raised err), w3)
              | Inr archive \<Rightarrow>
                  (case unzip e archive of
                     None \<Rightarrow>
                       (Some (Returned False),
                        cleanup_temp_directory e
                          (log CRITICAL ''Downloaded file is not a valid zip archive.'' w3)
                          temp_output_dir)
                   | Some members \<Rightarrow>
                       (None, extractall temp_output_dir members
                                (emit (Extractall zip_path temp_output_dir) w3))))"

definition process_single_url ::
  "env \<Rightarrow> world \<Rightarrow> string \<Rightarrow> string option \<Rightarrow> file_ops \<Rightarrow> ffmpeg_handler \<Rightarrow> quality
     \<Rightarrow> outcome \<times> world" where
  "process_single_url e w url custom_filename fo ffmpeg quality =
     (let w0 = log INFO ''--- Processing URL: {url} ---'' w
      in case setup_session w0 (cookies fo) of
           Inl err \<Rightarrow> (Raised err, w0)
         | Inr sess \<Rightarrow>
             (case get_id_and_type e sess w0 url of
                (None, w1) \<Rightarrow>
                  (Returned False,
                   log ERROR ''Could not get a valid recording ID for {url}. Skipping.'' w1)
              | (Some (recording_id, id_type), w1) \<Rightarrow>
                  if recording_id = []
                  then (Returned False,
                        log ERROR ''Could not get a valid recording ID for {url}. Skipping.'' w1)
                  else
                    let temp_output_dir = temp_output_dir_of fo recording_id;
                        zip_path = zip_path_of fo recording_id;
                        final_video_path_temp = final_video_path_temp_of fo custom_filename recording_id;
                        final_video_path_dest = final_video_path_dest_of fo custom_filename recording_id
                    in case makedirs w1 temp_output_dir of
                         Inl err \<Rightarrow> (Raised err, w1)
                       | Inr w2 \<Rightarrow>
                           let w3 = log INFO (''Final video will be named: '{output_filename}'' @ [CHR 0x27]) w2
                           in if exists w3 final_video_path_dest
                              then (Returned True,
                                    cleanup_temp_directory e
                                      (log WARNING ''Output file '{output_filename}' already exists in the destination. Skipping.'' w3)
                                      temp_output_dir)
                              else if \<not> exists w3 zip_path
                              then (case download_and_extract e sess w3 url recording_id id_type
                                           zip_path temp_output_dir of
                                      (Some res, w4) \<Rightarrow> (res, w4)
                                    | (None, w4) \<Rightarrow>
                                        two_pass_workflow e w4 ffmpeg quality temp_output_dir
                                          final_video_path_temp final_video_path_dest)
                              else two_pass_workflow e
                                     (log WARNING ''ZIP file already exists. Skipping download and extraction.'' w3)
                                     ffmpeg quality temp_output_dir
                                     final_video_path_temp final_video_path_dest))"

section \<open>Entry point: \<^verbatim>\<open>main\<close>\<close>

text \<open>
  The arguments as \<^verbatim>\<open>parse_args\<close> returns them. The parser declares \<^verbatim>\<open>url\<close>, \<^verbatim>\<open>--output\<close>,
  \<^verbatim>\<open>--cookies\<close> and \<^verbatim>\<open>--quality\<close>, and no argument named \<^verbatim>\<open>file\<close>: reading \<^verbatim>\<open>args.file\<close>
  raises \<^verbatim>\<open>AttributeError\<close>. The transcoder is \<open>None\<close> where its constructor raises
  \<^verbatim>\<open>FileNotFoundError\<close>. The result is the exit status of the process: 1 after
  \<^verbatim>\<open>sys.exit(1)\<close> and after an exception that nothing catches, 0 when \<^verbatim>\<open>main\<close> returns.
\<close>

record args =
  arg_url :: "string option"
  arg_output :: "string option"
  arg_cookies :: "string option"
  arg_quality :: quality

definition main ::
  "env \<Rightarrow> world \<Rightarrow> args \<Rightarrow> file_ops \<Rightarrow> ffmpeg_handler option \<Rightarrow> nat \<times> world" where
  "main e w a cross_platform_file_ops ffmpeg_found =
     (let w0 = log INFO ''--- Adobe Downloader v17.0 (Batch Mode Edition) ---'' w;
          fo = cross_platform_file_ops\<lparr>cookies := arg_cookies a\<rparr>
      in case ffmpeg_found of
           None \<Rightarrow>
             (1, log CRITICAL ''Please ensure FFmpeg is installed and accessible in your system's PATH.''
                   (log CRITICAL ''FATAL ERROR: {e}'' w0))
         | Some ffmpeg \<Rightarrow>
             (case arg_url a of
                None \<Rightarrow> (1, w0)
              | Some u \<Rightarrow>
                  if u = [] then (1, w0)
                  else (case process_single_url e w0 u (arg_output a) fo ffmpeg (arg_quality a) of
                          (Returned b, w1) \<Rightarrow> (0, w1)
                        | (Raised err, w1) \<Rightarrow> (1, w1))))"

section \<open>Observations on a run\<close>

text \<open>
  What the statements below read from a trace: the requests, the calls of the
  transcoder, the moves, the writes of the archive and the extractions; and from a world,
  the files that stand outside a directory.
\<close>

fun is_http_get :: "event \<Rightarrow> bool" where
  "is_http_get (Http_get u) = True"
| "is_http_get ev = False"

fun is_transcode :: "event \<Rightarrow> bool" where
  "is_transcode (Normalize_video fs out q ok) = True"
| "is_transcode (Normalize_audio fs out ok) = True"
| "is_transcode (Merge v a out q ok) = True"
| "is_transcode ev = False"

fun is_move :: "event \<Rightarrow> bool" where
  "is_move (Move src dst) = True"
| "is_move ev = False"

definition is_pipeline :: "event \<Rightarrow> bool" where
  "is_pipeline ev = (is_transcode ev \<or> is_move ev)"

fun is_archive_write :: "event \<Rightarrow> bool" where
  "is_archive_write (Open_wb p) = True"
| "is_archive_write (Write p c) = True"
| "is_archive_write ev = False"

fun is_extract :: "event \<Rightarrow> bool" where
  "is_extract (Extractall z d) = True"
| "is_extract ev = False"

fun is_rmtree :: "event \<Rightarrow> bool" where
  "is_rmtree (Rmtree d) = True"
| "is_rmtree ev = False"

definition outside :: "string \<Rightarrow> world \<Rightarrow> (string \<times> string) list" where
  "outside d w = filter (\<lambda>(p, c). \<not> within d p) (files w)"

text \<open>
  A step is quiet for a directory when it changes no file and no directory outside it and
  adds no call of the transcoder and no move to the trace.
\<close>

definition quiet :: "string \<Rightarrow> world \<Rightarrow> world \<Rightarrow> bool" where
  "quiet d w w' =
     (outside d w' = outside d w
      \<and> filter (\<lambda>p. \<not> within d p) (dirs w') = filter (\<lambda>p. \<not> within d p) (dirs w)
      \<and> filter is_pipeline (trace w') = filter is_pipeline (trace w))"

text \<open>
  Two ways for a part of a job to end, seen from the world \<open>w\<close> in which it starts: it
  has changed no file outside the working directory and moved nothing; or it has returned
  \<open>True\<close>, its calls of the transcoder \<open>evs\<close> are followed by the one move to the
  destination, and the destination is the one file that has changed outside the working
  directory.
\<close>

definition untouched :: "string \<Rightarrow> world \<Rightarrow> outcome \<times> world \<Rightarrow> bool" where
  "untouched d w run =
     (outside d (snd run) = outside d w
      \<and> filter is_move (trace (snd run)) = filter is_move (trace w))"

definition placed ::
  "string \<Rightarrow> string \<Rightarrow> string \<Rightarrow> world \<Rightarrow> event list \<Rightarrow> outcome \<times> world \<Rightarrow> bool" where
  "placed d ft dest w evs run =
     (fst run = Returned True
      \<and> filter is_pipeline (trace (snd run)) = filter is_pipeline (trace w) @ evs @ [Move ft dest]
      \<and> (\<exists>c. outside d (snd run) = AList.update dest c (outside d w)))"

section \<open>Example worlds\<close>

text \<open>The six fragment names of the specification, in a working directory.\<close>

definition fragments :: "string list" where
  "fragments = [''screenshare_1.flv'', ''screenshare_10.flv'', ''screenshare_2.flv'',
                ''cameravoip_3.flv'', ''cameravoip_1.flv'', ''notes.flv'']"

definition staging :: world where
  "staging = \<lparr>files = map (\<lambda>n. (''/dl/w/'' @ n, [])) fragments,
              dirs = [''/dl'', ''/dl/w''], requests = 0, trace = []\<rparr>"

text \<open>Addresses of the examples, split as \<^verbatim>\<open>urlparse\<close> splits them.\<close>

definition parse_example :: "string \<Rightarrow> parse_result" where
  "parse_example u =
     (if u = ''https://my.adobeconnect.com/p123abc/''
      then \<lparr>scheme = ''https'', netloc = ''my.adobeconnect.com'', path = ''/p123abc/''\<rparr>
      else if u = ''https://my.adobeconnect.com/rec/a.b''
      then \<lparr>scheme = ''https'', netloc = ''my.adobeconnect.com'', path = ''/rec/a.b''\<rparr>
      else if u = ''https://my.adobeconnect.com/''
      then \<lparr>scheme = ''https'', netloc = ''my.adobeconnect.com'', path = ''/''\<rparr>
      else \<lparr>scheme = [], netloc = [], path = u\<rparr>)"

text \<open>A server that cannot be reached, and servers that answer every request with one page.\<close>

definition offline :: env where
  "offline = \<lparr>urlparse = parse_example, http = (\<lambda>sess n u. Conn_error),
               unzip = (\<lambda>c. None), rmtree_raises = (\<lambda>d. False)\<rparr>"

definition page :: "string \<Rightarrow> response" where
  "page t = \<lparr>status_code = 200, headers = [], resp_text = t, chunks = [], stream_raises = False\<rparr>"

definition serving :: "string \<Rightarrow> env" where
  "serving t = offline\<lparr>http := (\<lambda>sess n u. Response (page t))\<rparr>"

definition anonymous :: session where
  "anonymous = \<lparr>jar = []\<rparr>"

definition blank :: world where
  "blank = \<lparr>files = [], dirs = [''/dl''], requests = 0, trace = []\<rparr>"

text \<open>
  File operations that leave names as they are, within the download directory \<^verbatim>\<open>/dl\<close>; a
  transcoder whose three operations succeed and leave a file; and a world in which the
  video of the recording \<^verbatim>\<open>p123abc\<close> is already in the download directory.
\<close>

definition plain_ops :: file_ops where
  "plain_ops = \<lparr>cookies = None, safe_filename = (\<lambda>s. s), get_main_download_dir = ''/dl''\<rparr>"

definition transcoder :: ffmpeg_handler where
  "transcoder = \<lparr>normalize_video_stream = (\<lambda>fs l out q. (True, Some ''video'')),
                  normalize_audio_stream = (\<lambda>fs l out. (True, Some ''audio'')),
                  merge_normalized_streams = (\<lambda>fs m out q. (True, Some ''merged''))\<rparr>"

definition finished :: world where
  "finished = \<lparr>files = [(''/dl/recording_p123abc.mp4'', ''merged'')], dirs = [''/dl''],
               requests = 0, trace = []\<rparr>"


definition archive :: response where
  "archive = \<lparr>status_code = 200,
              headers = [(''Content-Type'', ''application/zip''), (''Content-Length'', ''4'')],
              resp_text = [], chunks = [''PK'', ''34''], stream_raises = False\<rparr>"


text \<open>
  A world that an interrupted job left: the archive of the recording \<^verbatim>\<open>p123abc\<close> is in its
  working directory and nothing is extracted; and an archive reader that finds a screen
  stream and a camera stream in every archive.
\<close>

definition interrupted :: world where
  "interrupted = \<lparr>files = [(''/dl/adobe_connect_p123abc/p123abc.zip'', ''PK34'')],
                  dirs = [''/dl'', ''/dl/adobe_connect_p123abc''], requests = 0, trace = []\<rparr>"

definition unpacking :: env where
  "unpacking = offline\<lparr>unzip := (\<lambda>c. Some [(''screenshare_1.flv'', ''s1''),
                                              (''cameravoip_1.flv'', ''c1'')])\<rparr>"

text \<open>
  A server and an archive reader for a whole job: the page of the recording holds the
  identifier 4711, the probe finds no account identifier, every later request is answered
  with the archive, and the archive holds one screen fragment and one camera fragment.
\<close>

definition recorded :: env where
  "recorded = offline\<lparr>http := (\<lambda>sess n u. if n = 0 then Response (page ''sco-id=4711'')
                                            else if n = 1 then Response (page ''welcome'')
                                            else Response archive),
                        unzip := (\<lambda>c. Some [(''screenshare_1.flv'', ''s1''),
                                              (''cameravoip_1.flv'', ''c1'')])\<rparr>"

text \<open>File operations whose sanitizer drops the slashes of a name.\<close>

definition tidy_ops :: file_ops where
  "tidy_ops = \<lparr>cookies = None, safe_filename = filter (\<lambda>c. c \<noteq> CHR ''/''),
                get_main_download_dir = ''/dl''\<rparr>"

section \<open>Properties of the patterns\<close>

text \<open>What a match captures: only characters of the classes inside the group, and at least one
  for each single item of the group.\<close>

lemma rx_extends:
  "rx p s cap = Some r \<Longrightarrow>
     \<exists>d. r = cap @ d \<and> (\<forall>c \<in> set d. \<exists>k. (One k True \<in> set p \<or> Star k True \<in> set p) \<and> cls_ok k c)"
proof (induction p s cap arbitrary: r rule: rx.induct)
  case (1 s cap)
  then show ?case by simp
next
  case (2 p s cap)
  from 2(2) have cond: "s = [] \<or> s = [CHR 0x0A]" and r: "rx p s cap = Some r"
    by (auto split: if_splits)
  from 2(1)[OF cond r] obtain d where "r = cap @ d"
    "\<forall>c \<in> set d. \<exists>k. (One k True \<in> set p \<or> Star k True \<in> set p) \<and> cls_ok k c"
    by blast
  then show ?case by auto
next
  case (3 k g p cap)
  then show ?case by simp
next
  case (4 k g p c s cap)
  from 4(2) have ok: "cls_ok k c" and r: "rx p s (grab g cap c) = Some r"
    by (simp_all split: if_splits)
  from 4(1)[OF ok r] obtain d where d: "r = grab g cap c @ d"
    "\<forall>c \<in> set d. \<exists>k. (One k True \<in> set p \<or> Star k True \<in> set p) \<and> cls_ok k c"
    by blast
  show ?case
  proof (cases g)
    case True
    with d ok show ?thesis
      by (intro exI[of _ "c # d"]) (auto simp: grab_def)
  next
    case False
    with d show ?thesis by (intro exI[of _ d]) (auto simp: grab_def)
  qed
next
  case (5 k g p cap)
  from 5(2) have r: "rx p [] cap = Some r" by simp
  from 5(1)[OF r] obtain d where "r = cap @ d"
    "\<forall>c \<in> set d. \<exists>k. (One k True \<in> set p \<or> Star k True \<in> set p) \<and> cls_ok k c"
    by blast
  then show ?case by (intro exI[of _ d]) auto
next
  case (6 k g p c s cap)
  show ?case
  proof (cases "cls_ok k c \<and> rx (Star k g # p) s (grab g cap c) \<noteq> None")
    case True
    with 6(4) have r: "rx (Star k g # p) s (grab g cap c) = Some r" by auto
    from True 6(1)[OF _ r] obtain d where
        d: "r = grab g cap c @ d"
           "\<forall>c \<in> set d. \<exists>k'. (One k' True \<in> set (Star k g # p) \<or> Star k' True \<in> set (Star k g # p)) \<and> cls_ok k' c"
      by blast
    show ?thesis
    proof (cases g)
      case gt: True
      with d True show ?thesis
        by (intro exI[of _ "c # d"]) (auto simp: grab_def)
    next
      case False
      with d show ?thesis by (intro exI[of _ d]) (auto simp: grab_def)
    qed
  next
    case False
    with 6(4) have r: "rx p (c # s) cap = Some r" by (auto split: if_splits option.splits)
    have "\<exists>d. r = cap @ d \<and> (\<forall>c \<in> set d. \<exists>k. (One k True \<in> set p \<or> Star k True \<in> set p) \<and> cls_ok k c)"
    proof (cases "cls_ok k c")
      case True
      with False have "rx (Star k g # p) s (grab g cap c) = None" by simp
      from 6(2)[OF True this r] show ?thesis .
    next
      case nok: False
      from 6(3)[OF nok r] show ?thesis .
    qed
    then obtain d where "r = cap @ d"
      "\<forall>c \<in> set d. \<exists>k. (One k True \<in> set p \<or> Star k True \<in> set p) \<and> cls_ok k c"
      by blast
    then show ?thesis by (intro exI[of _ d]) auto
  qed
qed

lemma rx_length: "rx p s cap = Some r \<Longrightarrow> length cap \<le> length r"
  using rx_extends[of p s cap r] by auto


lemma rx_grows:
  "rx p s cap = Some r \<Longrightarrow> One k True \<in> set p \<Longrightarrow> length cap < length r"
proof (induction p s cap arbitrary: r rule: rx.induct)
  case (1 s cap)
  then show ?case by simp
next
  case (2 p s cap)
  from 2(2) have cond: "s = [] \<or> s = [CHR 0x0A]" and r: "rx p s cap = Some r"
    by (auto split: if_splits)
  from 2(3) have "One k True \<in> set p" by simp
  from 2(1)[OF cond r this] show ?case .
next
  case (3 k' g p cap)
  then show ?case by simp
next
  case (4 k' g p c s cap)
  from 4(2) have ok: "cls_ok k' c" and r: "rx p s (grab g cap c) = Some r"
    by (simp_all split: if_splits)
  show ?case
  proof (cases "One k True \<in> set p")
    case True
    from 4(1)[OF ok r True] show ?thesis by (simp add: grab_def split: if_splits)
  next
    case False
    with 4(3) have g by simp
    moreover from r have "length (grab g cap c) \<le> length r" by (rule rx_length)
    ultimately show ?thesis by (simp add: grab_def)
  qed
next
  case (5 k' g p cap)
  from 5(2) have r: "rx p [] cap = Some r" by simp
  from 5(3) have "One k True \<in> set p" by simp
  from 5(1)[OF r this] show ?case .
next
  case (6 k' g p c s cap)
  from 6(5) have m: "One k True \<in> set p" "One k True \<in> set (Star k' g # p)" by simp_all
  show ?case
  proof (cases "cls_ok k' c \<and> rx (Star k' g # p) s (grab g cap c) \<noteq> None")
    case True
    with 6(4) have r: "rx (Star k' g # p) s (grab g cap c) = Some r" by auto
    from True 6(1)[OF _ r m(2)] have "length (grab g cap c) < length r" by blast
    then show ?thesis by (simp add: grab_def split: if_splits)
  next
    case False
    with 6(4) have r: "rx p (c # s) cap = Some r" by (auto split: if_splits option.splits)
    show ?thesis
    proof (cases "cls_ok k' c")
      case True
      with False have "rx (Star k' g # p) s (grab g cap c) = None" by simp
      from 6(2)[OF True this r m(1)] show ?thesis .
    next
      case nok: False
      from 6(3)[OF nok r m(1)] show ?thesis .
    qed
  qed
qed

lemma re_search_rx: "re_search p t = Some r \<Longrightarrow> \<exists>s. rx p s [] = Some r"
proof (induction t)
  case Nil
  then show ?case by auto
next
  case (Cons c t)
  show ?case
  proof (cases "rx p (c # t) []")
    case None
    with Cons show ?thesis by simp
  next
    case (Some a)
    with Cons(2) show ?thesis by auto
  qed
qed

lemma digits_captured:
  assumes "re_search (pre @ many1 Digit True @ post) t = Some r"
    and "\<forall>i \<in> set (pre @ post). \<forall>k. i \<noteq> One k True \<and> i \<noteq> Star k True"
  shows "r \<noteq> [] \<and> list_all is_digit r"
proof -
  let ?p = "pre @ many1 Digit True @ post"
  from assms(1) obtain s where s: "rx ?p s [] = Some r"
    using re_search_rx by blast
  have "One Digit True \<in> set ?p" by (simp add: many1_def)
  with s have "length ([]::string) < length r" by (rule rx_grows)
  moreover have "\<forall>c \<in> set r. is_digit c"
  proof
    fix c assume c: "c \<in> set r"
    from rx_extends[OF s] c obtain k where
      k: "One k True \<in> set ?p \<or> Star k True \<in> set ?p" "cls_ok k c"
      by auto
    from k(1) assms(2) have "k = Digit" by (auto simp: many1_def)
    with k(2) show "is_digit c" by simp
  qed
  ultimately show ?thesis by (simp add: list_all_iff)
qed

text \<open>The pattern of the path fallback finds the longest run of its class that ends the string.\<close>

lemma newline_not_safe: "\<not> cls_ok UrlSafe (CHR 0x0A)"
  by (simp add: is_alnum_def is_lower_def is_upper_def is_digit_def ord_def)

lemma rx_star_eos:
  assumes "\<not> cls_ok k (CHR 0x0A)"
  shows "rx [Star k True, Eos] s cap =
     (if dropWhile (cls_ok k) s = [] \<or> dropWhile (cls_ok k) s = [CHR 0x0A]
      then Some (cap @ takeWhile (cls_ok k) s) else None)"
proof (induction s arbitrary: cap)
  case Nil
  then show ?case by simp
next
  case (Cons c s)
  show ?case
  proof (cases "cls_ok k c")
    case True
    with assms have "c \<noteq> CHR 0x0A" by auto
    with True show ?thesis by (simp add: Cons.IH grab_def)
  next
    case False
    with assms show ?thesis by auto
  qed
qed

lemma rx_path_pattern:
  "rx (many1 UrlSafe True @ [Eos]) s [] =
     (if takeWhile (cls_ok UrlSafe) s \<noteq> []
         \<and> (dropWhile (cls_ok UrlSafe) s = [] \<or> dropWhile (cls_ok UrlSafe) s = [CHR 0x0A])
      then Some (takeWhile (cls_ok UrlSafe) s) else None)"
proof (cases s)
  case Nil
  then show ?thesis by (simp add: many1_def)
next
  case (Cons c t)
  then show ?thesis
    using rx_star_eos[OF newline_not_safe, of t "[c]"] by (simp add: many1_def grab_def)
qed

lemma trailing_run_all: "list_all p s \<Longrightarrow> trailing_run p s = s"
  by (simp add: trailing_run_def list_all_iff takeWhile_eq_all_conv[THEN iffD2])

lemma trailing_run_Cons:
  "trailing_run p (c # s) = (if list_all p s then (if p c then c # s else s) else trailing_run p s)"
proof (cases "list_all p s")
  case True
  then have "takeWhile p (rev s @ [c]) = rev s @ takeWhile p [c]"
    by (intro takeWhile_append2) (simp add: list_all_iff)
  with True show ?thesis by (simp add: trailing_run_def)
next
  case False
  then obtain x where "x \<in> set (rev s)" "\<not> p x" by (auto simp: list_all_iff)
  then have "takeWhile p (rev s @ [c]) = takeWhile p (rev s)"
    by (rule takeWhile_append1)
  with False show ?thesis by (simp add: trailing_run_def)
qed

lemma chomp_Cons: "t \<noteq> [] \<Longrightarrow> chomp (c # t) = c # chomp t"
  by (simp add: chomp_def)

lemma chomp_decomp: "\<exists>r. s = chomp s @ r \<and> (r = [] \<or> r = [CHR 0x0A])"
proof (cases "s \<noteq> [] \<and> last s = CHR 0x0A")
  case True
  then have "s = butlast s @ [CHR 0x0A]" by (metis append_butlast_last_id)
  with True show ?thesis by (auto simp: chomp_def)
next
  case False
  then show ?thesis by (auto simp: chomp_def)
qed

lemma rx_path_some:
  assumes "takeWhile (cls_ok UrlSafe) s \<noteq> []"
    and "dropWhile (cls_ok UrlSafe) s = [] \<or> dropWhile (cls_ok UrlSafe) s = [CHR 0x0A]"
  shows "rx (many1 UrlSafe True @ [Eos]) s [] = Some (takeWhile (cls_ok UrlSafe) s)"
  using assms by (subst rx_path_pattern) (simp del: takeWhile.simps dropWhile.simps cls_ok.simps)

lemma rx_path_none:
  assumes "\<not> (takeWhile (cls_ok UrlSafe) s \<noteq> []
        \<and> (dropWhile (cls_ok UrlSafe) s = [] \<or> dropWhile (cls_ok UrlSafe) s = [CHR 0x0A]))"
  shows "rx (many1 UrlSafe True @ [Eos]) s [] = None"
  using assms by (subst rx_path_pattern) (simp del: takeWhile.simps dropWhile.simps cls_ok.simps)

text \<open>A string that the pattern matches from its start is its own trailing run.\<close>

lemma matched_whole:
  assumes nl: "\<not> p (CHR 0x0A)"
    and "takeWhile p s \<noteq> []"
    and "dropWhile p s = [] \<or> dropWhile p s = [CHR 0x0A]"
  shows "trailing_run p (chomp s) = takeWhile p s"
proof -
  let ?run = "takeWhile p s"
  have s: "s = ?run @ dropWhile p s" by simp
  have all: "list_all p ?run"
    by (simp add: list_all_iff) (meson set_takeWhileD)
  from assms(2) all have "p (last ?run)"
    by (simp add: list_all_iff)
  with nl have ln: "last ?run \<noteq> CHR 0x0A" by metis
  from assms(3) have "chomp s = ?run"
  proof
    assume "dropWhile p s = []"
    with s have "s = ?run" by simp
    with assms(2) ln show ?thesis by (simp add: chomp_def)
  next
    assume "dropWhile p s = [CHR 0x0A]"
    with s have "s = ?run @ [CHR 0x0A]" by simp
    then have "chomp s = chomp (?run @ [CHR 0x0A])" by simp
    then show ?thesis by (simp add: chomp_def)
  qed
  with all show ?thesis by (simp add: trailing_run_all)
qed

lemma unmatched_step:
  assumes nl: "\<not> p (CHR 0x0A)"
    and un: "\<not> (takeWhile p (c # t) \<noteq> []
        \<and> (dropWhile p (c # t) = [] \<or> dropWhile p (c # t) = [CHR 0x0A]))"
  shows "trailing_run p (chomp (c # t)) = trailing_run p (chomp t)"
proof (cases "t = []")
  case True
  with un have "\<not> p c" by (auto split: if_splits)
  with True show ?thesis by (simp add: chomp_def trailing_run_def)
next
  case False
  then have ch: "chomp (c # t) = c # chomp t" by (rule chomp_Cons)
  show ?thesis
  proof (cases "list_all p (chomp t)")
    case all: True
    show ?thesis
    proof (cases "p c")
      case True
      obtain r where r: "t = chomp t @ r" "r = [] \<or> r = [CHR 0x0A]"
        using chomp_decomp by blast
      from True all have a: "\<forall>x \<in> set (c # chomp t). p x" by (simp add: list_all_iff)
      have "takeWhile p ((c # chomp t) @ r) = (c # chomp t) @ takeWhile p r"
        using a by (intro takeWhile_append2) blast
      moreover have "dropWhile p ((c # chomp t) @ r) = dropWhile p r"
        using a by (intro dropWhile_append2) blast
      moreover have "(c # chomp t) @ r = c # t" using r(1) by simp
      ultimately have "takeWhile p (c # t) \<noteq> []"
        "dropWhile p (c # t) = dropWhile p r"
        by (simp_all del: takeWhile.simps dropWhile.simps)
      moreover from r(2) nl have "dropWhile p r = r" by auto
      ultimately have False using un r(2) by (simp del: takeWhile.simps dropWhile.simps)
      then show ?thesis ..
    next
      case False
      have "trailing_run p (c # chomp t) = chomp t"
        using all False by (simp only: trailing_run_Cons if_True if_False)
      moreover have "trailing_run p (chomp t) = chomp t"
        using all by (rule trailing_run_all)
      ultimately show ?thesis by (simp only: ch)
    qed
  next
    case False
    then have "trailing_run p (c # chomp t) = trailing_run p (chomp t)"
      by (simp only: trailing_run_Cons if_False)
    then show ?thesis by (simp only: ch)
  qed
qed

lemma re_search_path_pattern:
  "re_search (many1 UrlSafe True @ [Eos]) s =
     (if trailing_run (cls_ok UrlSafe) (chomp s) = [] then None
      else Some (trailing_run (cls_ok UrlSafe) (chomp s)))"
proof (induction s)
  case Nil
  have "rx (many1 UrlSafe True @ [Eos]) [] [] = None" by (simp add: many1_def)
  then show ?case by (simp add: chomp_def trailing_run_def)
next
  case (Cons c t)
  let ?p = "many1 UrlSafe True @ [Eos]"
  show ?case
  proof (cases "takeWhile (cls_ok UrlSafe) (c # t) \<noteq> []
        \<and> (dropWhile (cls_ok UrlSafe) (c # t) = [] \<or> dropWhile (cls_ok UrlSafe) (c # t) = [CHR 0x0A])")
    case True
    then have "rx ?p (c # t) [] = Some (takeWhile (cls_ok UrlSafe) (c # t))"
      by (intro rx_path_some) blast+
    then have a: "re_search ?p (c # t) = Some (takeWhile (cls_ok UrlSafe) (c # t))"
      by (simp only: re_search.simps option.case)
    from True
    have b: "trailing_run (cls_ok UrlSafe) (chomp (c # t)) = takeWhile (cls_ok UrlSafe) (c # t)"
      by (intro matched_whole newline_not_safe) blast+
    from True have c: "takeWhile (cls_ok UrlSafe) (c # t) \<noteq> []" by blast
    show ?thesis by (simp only: a b c if_False)
  next
    case False
    then have "rx ?p (c # t) [] = None"
      by (rule rx_path_none)
    then have a: "re_search ?p (c # t) = re_search ?p t"
      by (simp only: re_search.simps option.case)
    from False
    have b: "trailing_run (cls_ok UrlSafe) (chomp (c # t)) = trailing_run (cls_ok UrlSafe) (chomp t)"
      by (intro unmatched_step newline_not_safe)
    show ?thesis by (simp only: a b Cons.IH)
  qed
qed

section \<open>Properties of the Stream Classifier\<close>






lemma endswith_slashD:
  assumes "endswith d ''/''"
  shows "\<exists>a. d = a @ ''/''"
proof -
  from assms have "drop (length d - 1) d = ''/''" by (simp add: endswith_def)
  then have "d = take (length d - 1) d @ ''/''"
    by (metis append_take_drop_id)
  then show ?thesis by blast
qed











section \<open>Properties of the Identifier Resolver\<close>

lemma ilit_uncaptured: "\<forall>i \<in> set (ilit s). \<forall>k. i \<noteq> One k True \<and> i \<noteq> Star k True"
  by (auto simp: ilit_def)

lemma patterns_capture_digits:
  assumes "p \<in> set patterns" and "re_search p t = Some v"
  shows "v \<noteq> [] \<and> list_all is_digit v"
proof -
  let ?pre1 = "ilit (dquote @ ''sco-id'' @ dquote) @ [Star Space False] @ ilit '':''
                 @ [Star Space False] @ ilit dquote"
  from assms(1) consider
      "p = ?pre1 @ many1 Digit True @ ilit dquote"
    | "p = ilit ''sco-id='' @ many1 Digit True @ []"
    | "p = ilit ''recording-id='' @ many1 Digit True @ []"
    | "p = ilit ''scoid:'' @ many1 Digit True @ []"
    by (auto simp: patterns_def)
  then show ?thesis
  proof cases
    case 1
    have "\<forall>i \<in> set (?pre1 @ ilit dquote). \<forall>k. i \<noteq> One k True \<and> i \<noteq> Star k True"
      using ilit_uncaptured by auto
    with assms(2) 1 show ?thesis
      using digits_captured[of ?pre1 "ilit dquote" t v] by blast
  next
    case 2
    with assms(2) show ?thesis
      using digits_captured[of "ilit ''sco-id=''" "[]" t v] ilit_uncaptured[of "''sco-id=''"]
      by auto
  next
    case 3
    with assms(2) show ?thesis
      using digits_captured[of "ilit ''recording-id=''" "[]" t v]
        ilit_uncaptured[of "''recording-id=''"]
      by auto
  next
    case 4
    with assms(2) show ?thesis
      using digits_captured[of "ilit ''scoid:''" "[]" t v] ilit_uncaptured[of "''scoid:''"]
      by auto
  qed
qed



lemma path_fallback_result:
  "fst (path_fallback e w u) =
     (let token = trailing_run (cls_ok UrlSafe) (chomp (hd (split CHR ''?'' (path_part e u))))
      in if token = [] then None else Some (token, Path_id))"
  by (simp add: path_fallback_def re_search_path_pattern Let_def del: cls_ok.simps)

lemma get_id_and_type_found:
  assumes "http e sess (requests w) u = Response resp" and "\<not> raises_for_status resp"
    and "first_found patterns (resp_text resp) = Some v"
  shows "fst (get_id_and_type e sess w u) = Some (v, Sco_id)"
  using assms by (simp add: get_id_and_type_def session_get_def log_def)

lemma get_id_and_type_fallback:
  assumes "http e sess (requests w) u = Conn_error
     \<or> (\<exists>resp. http e sess (requests w) u = Response resp
           \<and> (raises_for_status resp \<or> first_found patterns (resp_text resp) = None))"
  shows "\<exists>w'. fst (get_id_and_type e sess w u) = fst (path_fallback e w' u)"
  using assms by (auto simp: get_id_and_type_def session_get_def log_def)

lemma split_nonempty: "split sep s \<noteq> []"
  by (induction s) (auto split: list.splits)









section \<open>Properties of the Archive Locator\<close>

lemma fromkeys_snoc:
  "fromkeys (xs @ [x]) = (if x \<in> set (fromkeys xs) then fromkeys xs else fromkeys xs @ [x])"
  by (simp add: fromkeys_def)

lemma set_fromkeys: "set (fromkeys xs) = set xs"
  by (induction xs rule: rev_induct) (auto simp: fromkeys_snoc fromkeys_def)

lemma distinct_fromkeys: "distinct (fromkeys xs)"
  by (induction xs rule: rev_induct) (auto simp: fromkeys_snoc fromkeys_def)

text \<open>The elements are kept at their first occurrence, in the order of the list.\<close>

lemma fromkeys_first_seen:
  "fromkeys xs = map (nth xs) (filter (\<lambda>i. xs ! i \<notin> set (take i xs)) [0..<length xs])"
proof (induction xs rule: rev_induct)
  case Nil
  then show ?case by (simp add: fromkeys_def)
next
  case (snoc x xs)
  have f: "filter (\<lambda>i. (xs @ [x]) ! i \<notin> set (take i (xs @ [x]))) [0..<length xs]
             = filter (\<lambda>i. xs ! i \<notin> set (take i xs)) [0..<length xs]"
    by (intro filter_cong) (auto simp: nth_append)
  have m: "map (nth (xs @ [x])) (filter (\<lambda>i. xs ! i \<notin> set (take i xs)) [0..<length xs])
             = map (nth xs) (filter (\<lambda>i. xs ! i \<notin> set (take i xs)) [0..<length xs])"
    by (intro map_cong) (auto simp: nth_append)
  have u: "[0..<length (xs @ [x])] = [0..<length xs] @ [length xs]"
    by simp
  show ?case
    unfolding u filter_append map_append f m snoc.IH[symmetric]
    by (simp add: fromkeys_snoc set_fromkeys)
qed

lemma account_id_nonempty: "fst (get_account_id e sess w u) \<noteq> Some []"
proof
  assume a: "fst (get_account_id e sess w u) = Some []"
  let ?pre = "lit ''account_id'' @ [Star Space False] @ lit ''='' @ [Star Space False]"
  from a obtain t where "re_search (?pre @ many1 Digit True @ []) t = Some []"
    by (auto simp: get_account_id_def session_get_def split: http_result.splits)
  moreover have "\<forall>i \<in> set (?pre @ []). \<forall>k. i \<noteq> One k True \<and> i \<noteq> Star k True"
    by (auto simp: lit_def)
  ultimately show False
    using digits_captured[of ?pre "[]" t "[]"] by blast
qed

lemma construct_zip_urls_list:
  "fst (construct_zip_urls e sess w u rid k) =
     fromkeys (structure_a (base_of (urlparse e u)) rid @ structure_b (base_of (urlparse e u)) rid
               @ structure_c (base_of (urlparse e u)) rid (fst (get_account_id e sess w u)))"
  by (simp add: construct_zip_urls_def split_beta Let_def)

text \<open>
  Claim C4, as the specification states it, for one address and one identifier and two
  servers whose pages both hold an account identifier, 1 and 2: the presence of the
  account identifier is the same, and the lists of candidates differ.
\<close>

theorem account_value_changes_candidates:
  "fst (get_account_id (serving ''account_id = 1'') anonymous blank
          ''https://my.adobeconnect.com/p123abc/'') = Some ''1''
   \<and> fst (get_account_id (serving ''account_id = 2'') anonymous blank
          ''https://my.adobeconnect.com/p123abc/'') = Some ''2''
   \<and> fst (construct_zip_urls (serving ''account_id = 1'') anonymous blank
            ''https://my.adobeconnect.com/p123abc/'' ''4711'' Sco_id)
       \<noteq> fst (construct_zip_urls (serving ''account_id = 2'') anonymous blank
            ''https://my.adobeconnect.com/p123abc/'' ''4711'' Sco_id)"
  by code_simp

text \<open>
  Claim C4, amended. The list of candidates is a function of the scheme and host of the
  address, the identifier, and the account identifier that the probe discovers, its value
  and not only its presence: two calls that agree on these return the same list in the
  same order, whatever the kinds of identifier. The list is made of the four base shapes,
  then of the two content shapes when an account identifier was found, each kept where it
  first occurs: duplicates are removed and the order of first occurrence is preserved.
\<close>

theorem construct_zip_urls_determined:
  "(scheme (urlparse e u) = scheme (urlparse e' u') \<and> netloc (urlparse e u) = netloc (urlparse e' u')
      \<and> fst (get_account_id e sess w u) = fst (get_account_id e' sess' w' u')
     \<longrightarrow> fst (construct_zip_urls e sess w u rid k) = fst (construct_zip_urls e' sess' w' u' rid k'))
   \<and> (let b = scheme (urlparse e u) @ ''://'' @ netloc (urlparse e u);
           cands = [b @ ''/'' @ rid @ ''/output/'' @ rid @ ''.zip?download=zip'',
                    b @ ''/'' @ rid @ ''/output/output.zip?download=zip'',
                    b @ ''/p'' @ rid @ ''/output/'' @ rid @ ''.zip?download=zip'',
                    b @ ''/p'' @ rid @ ''/output/output.zip?download=zip'']
                   @ (case fst (get_account_id e sess w u) of
                        None \<Rightarrow> []
                      | Some a \<Rightarrow>
                          [b @ ''/content/'' @ a @ ''/'' @ rid @ ''-1/output/'' @ rid @ ''-1.zip?download=zip'',
                           b @ ''/content/'' @ a @ ''/'' @ rid @ ''-1/output/output.zip?download=zip''])
       in fst (construct_zip_urls e sess w u rid k)
            = map (nth cands) (filter (\<lambda>i. cands ! i \<notin> set (take i cands)) [0..<length cands]))
   \<and> distinct (fst (construct_zip_urls e sess w u rid k))"
proof (intro conjI impI)
  assume "scheme (urlparse e u) = scheme (urlparse e' u') \<and> netloc (urlparse e u) = netloc (urlparse e' u')
      \<and> fst (get_account_id e sess w u) = fst (get_account_id e' sess' w' u')"
  then show "fst (construct_zip_urls e sess w u rid k) = fst (construct_zip_urls e' sess' w' u' rid k')"
    by (simp add: construct_zip_urls_list base_of_def)
next
  have c: "structure_c (base_of (urlparse e u)) rid (fst (get_account_id e sess w u))
       = (case fst (get_account_id e sess w u) of
            None \<Rightarrow> []
          | Some a \<Rightarrow>
              [base_of (urlparse e u) @ ''/content/'' @ a @ ''/'' @ rid @ ''-1/output/'' @ rid
                 @ ''-1.zip?download=zip'',
               base_of (urlparse e u) @ ''/content/'' @ a @ ''/'' @ rid
                 @ ''-1/output/output.zip?download=zip''])"
    using account_id_nonempty[of e sess w u]
    by (auto simp: structure_c_def split: option.splits)
  show "let b = scheme (urlparse e u) @ ''://'' @ netloc (urlparse e u);
           cands = [b @ ''/'' @ rid @ ''/output/'' @ rid @ ''.zip?download=zip'',
                    b @ ''/'' @ rid @ ''/output/output.zip?download=zip'',
                    b @ ''/p'' @ rid @ ''/output/'' @ rid @ ''.zip?download=zip'',
                    b @ ''/p'' @ rid @ ''/output/output.zip?download=zip'']
                   @ (case fst (get_account_id e sess w u) of
                        None \<Rightarrow> []
                      | Some a \<Rightarrow>
                          [b @ ''/content/'' @ a @ ''/'' @ rid @ ''-1/output/'' @ rid @ ''-1.zip?download=zip'',
                           b @ ''/content/'' @ a @ ''/'' @ rid @ ''-1/output/output.zip?download=zip''])
       in fst (construct_zip_urls e sess w u rid k)
            = map (nth cands) (filter (\<lambda>i. cands ! i \<notin> set (take i cands)) [0..<length cands])"
    unfolding Let_def construct_zip_urls_list c
    by (subst fromkeys_first_seen) (simp only: structure_a_def structure_b_def base_of_def append_Cons append_Nil append_assoc)
next
  show "distinct (fst (construct_zip_urls e sess w u rid k))"
    by (simp only: construct_zip_urls_list distinct_fromkeys)
qed

theorem construct_zip_urls_determined_witness:
  "fst (construct_zip_urls (serving ''account_id=7'') anonymous blank
          ''https://my.adobeconnect.com/p123abc/'' ''4711'' Sco_id)
     = fst (construct_zip_urls (serving ''var account_id = 7;'') anonymous staging
          ''https://my.adobeconnect.com/'' ''4711'' Path_id)"
proof -
  let ?e = "serving ''account_id=7''" and ?e' = "serving ''var account_id = 7;''"
  let ?u = "''https://my.adobeconnect.com/p123abc/''" and ?u' = "''https://my.adobeconnect.com/''"
  have h1: "scheme (urlparse ?e ?u) = scheme (urlparse ?e' ?u')"
    by code_simp
  have h2: "netloc (urlparse ?e ?u) = netloc (urlparse ?e' ?u')"
    by code_simp
  have h3: "fst (get_account_id ?e anonymous blank ?u) = fst (get_account_id ?e' anonymous staging ?u')"
    by code_simp
  show ?thesis
    using construct_zip_urls_determined [of ?e ?u ?e' ?u' anonymous blank anonymous staging
        "''4711''" Sco_id Path_id] h1 h2 h3
    by blast
qed

text \<open>
  Claim C9. The list of archive candidates does not depend on the kind of the identifier:
  for one environment, session, world, address and identifier, \<open>construct_zip_urls\<close>
  called with any two kinds returns the same list in the same order, and leaves the same
  world.
\<close>

theorem construct_zip_urls_ignores_id_type:
  "construct_zip_urls e sess w meeting_url recording_id Sco_id
     = construct_zip_urls e sess w meeting_url recording_id Path_id"
  by (simp add: construct_zip_urls_def)

section \<open>Effects of the steps of a job\<close>

lemma log_fields [simp]:
  "files (log l m w) = files w" "dirs (log l m w) = dirs w"
  "requests (log l m w) = requests w" "trace (log l m w) = trace w @ [Log l m]"
  by (simp_all add: log_def)

lemma emit_fields [simp]:
  "files (emit ev w) = files w" "dirs (emit ev w) = dirs w"
  "requests (emit ev w) = requests w" "trace (emit ev w) = trace w @ [ev]"
  by (simp_all add: emit_def)

lemma write_file_fields [simp]:
  "files (write_file p c w) = AList.update p c (files w)" "dirs (write_file p c w) = dirs w"
  "requests (write_file p c w) = requests w" "trace (write_file p c w) = trace w"
  by (simp_all add: write_file_def)

lemma same_files_dirs:
  assumes "files w' = files w" and "dirs w' = dirs w"
  shows "isfile w' p = isfile w p" and "isdir w' p = isdir w p" and "exists w' p = exists w p"
    and "setup_session w' c = setup_session w c" and "outside d w' = outside d w"
  using assms
  by (auto simp: isfile_def isdir_def exists_def setup_session_def read_file_def outside_def
        split: option.splits)

text \<open>The resolver: one request, log lines, and nothing on the file system.\<close>

lemma resolver_effect:
  assumes "\<And>l m. \<not> f (Log l m)"
  shows "files (snd (get_id_and_type e sess w u)) = files w
    \<and> dirs (snd (get_id_and_type e sess w u)) = dirs w
    \<and> requests (snd (get_id_and_type e sess w u)) = Suc (requests w)
    \<and> filter f (trace (snd (get_id_and_type e sess w u))) = filter f (trace w) @ filter f [Http_get u]"
  using assms
  by (simp add: get_id_and_type_def session_get_def path_fallback_def
        split: http_result.splits option.splits)

lemma resolver_grows: "\<exists>post. trace (snd (get_id_and_type e sess w u)) = trace w @ post"
  by (simp add: get_id_and_type_def session_get_def path_fallback_def
        split: http_result.splits option.splits)

lemma resolver_fst_indep:
  "requests w = requests w' \<Longrightarrow>
     fst (get_id_and_type e sess w u) = fst (get_id_and_type e sess w' u)"
  by (simp add: get_id_and_type_def session_get_def path_fallback_def
        split: http_result.splits option.splits)

lemma resolver_nonempty:
  assumes "fst (get_id_and_type e sess w u) = Some (rid, k)"
  shows "rid \<noteq> []"
proof (cases "\<exists>resp. http e sess (requests w) u = Response resp \<and> \<not> raises_for_status resp
                \<and> first_found patterns (resp_text resp) \<noteq> None")
  case True
  then obtain resp v where r: "http e sess (requests w) u = Response resp"
    "\<not> raises_for_status resp" "first_found patterns (resp_text resp) = Some v"
    by auto
  then have "fst (get_id_and_type e sess w u) = Some (v, Sco_id)"
    by (rule get_id_and_type_found)
  with assms have v: "v = rid" by simp
  have "\<And>ps. first_found ps (resp_text resp) = Some v
          \<Longrightarrow> \<exists>p \<in> set ps. re_search p (resp_text resp) = Some v"
  proof -
    fix ps show "first_found ps (resp_text resp) = Some v
          \<Longrightarrow> \<exists>p \<in> set ps. re_search p (resp_text resp) = Some v"
      by (induction ps) (auto split: option.splits)
  qed
  with r(3) obtain p where "p \<in> set patterns" "re_search p (resp_text resp) = Some v"
    by blast
  then have "v \<noteq> []" using patterns_capture_digits by blast
  with v show ?thesis by simp
next
  case False
  then have "http e sess (requests w) u = Conn_error
     \<or> (\<exists>resp. http e sess (requests w) u = Response resp
           \<and> (raises_for_status resp \<or> first_found patterns (resp_text resp) = None))"
    by (cases "http e sess (requests w) u") auto
  then obtain w' where "fst (get_id_and_type e sess w u) = fst (path_fallback e w' u)"
    using get_id_and_type_fallback by blast
  with assms show ?thesis
    by (auto simp: path_fallback_result Let_def split: if_splits)
qed

text \<open>Creating the working directory.\<close>

lemma makedirs_effect:
  assumes "\<not> isfile w p"
  shows "\<exists>w2. makedirs w p = Inr w2 \<and> files w2 = files w \<and> requests w2 = requests w
           \<and> trace w2 = trace w @ [Makedirs p] \<and> isdir w2 p
           \<and> dirs w2 = (if isdir w p then dirs w else dirs w @ [p])
           \<and> (\<forall>q. exists w q \<longrightarrow> exists w2 q) \<and> (\<forall>q. q \<noteq> p \<longrightarrow> exists w2 q = exists w q)"
  using assms by (auto simp: makedirs_def isdir_def isfile_def exists_def)

text \<open>The cleanup: one removal when the directory is there, and nothing outside it.\<close>

lemma cleanup_effect:
  assumes "\<And>l m. \<not> f (Log l m)"
  shows "requests (cleanup_temp_directory e w d) = requests w
    \<and> filter f (trace (cleanup_temp_directory e w d))
         = filter f (trace w) @ (if isdir w d then filter f [Rmtree d] else [])
    \<and> outside d (cleanup_temp_directory e w d) = outside d w
    \<and> (isdir w d \<and> \<not> rmtree_raises e d \<longrightarrow> \<not> exists (cleanup_temp_directory e w d) d)"
  using assms
  by (auto simp: cleanup_temp_directory_def Let_def isdir_def outside_def rmtree_def
        exists_def isfile_def within_def map_of_eq_None_iff image_iff)

lemma log_tests [simp]:
  "isfile (log l m w) p = isfile w p" "isdir (log l m w) p = isdir w p"
  "exists (log l m w) p = exists w p" "setup_session (log l m w) c = setup_session w c"
  "outside d (log l m w) = outside d w"
  using same_files_dirs[of "log l m w" w] by simp_all

lemma emit_tests [simp]:
  "isfile (emit ev w) p = isfile w p" "isdir (emit ev w) p = isdir w p"
  "exists (emit ev w) p = exists w p" "outside d (emit ev w) = outside d w"
  using same_files_dirs[of "emit ev w" w] by simp_all

section \<open>A job whose destination exists\<close>

text \<open>
  The job up to the test of the destination: the session is set up, the resolver gives an
  identifier, and the working directory is made. The world \<open>w3\<close> is the one in which the
  destination is tested.
\<close>

lemma job_prefix:
  assumes ss: "setup_session w (cookies fo) = Inr sess"
    and r: "fst (get_id_and_type e sess w url) = Some (rid, k)"
    and nf: "\<not> isfile w (temp_output_dir_of fo rid)"
  shows "\<exists>w3. isdir w3 (temp_output_dir_of fo rid) \<and> files w3 = files w
      \<and> requests w3 = Suc (requests w)
      \<and> dirs w3 = (if isdir w (temp_output_dir_of fo rid) then dirs w
                    else dirs w @ [temp_output_dir_of fo rid])
      \<and> (\<exists>pre. trace w3 = trace w @ pre)
      \<and> (\<forall>p. exists w p \<longrightarrow> exists w3 p)
      \<and> (\<forall>p. p \<noteq> temp_output_dir_of fo rid \<longrightarrow> exists w3 p = exists w p)
      \<and> (\<forall>f. (\<forall>l m. \<not> f (Log l m)) \<longrightarrow>
            filter f (trace w3)
              = filter f (trace w) @ filter f [Http_get url, Makedirs (temp_output_dir_of fo rid)])
      \<and> process_single_url e w url cf fo ff q =
          (if exists w3 (final_video_path_dest_of fo cf rid)
           then (Returned True,
                 cleanup_temp_directory e
                   (log WARNING ''Output file '{output_filename}' already exists in the destination. Skipping.'' w3)
                   (temp_output_dir_of fo rid))
           else if \<not> exists w3 (zip_path_of fo rid)
           then (case download_and_extract e sess w3 url rid k (zip_path_of fo rid)
                        (temp_output_dir_of fo rid) of
                   (Some res, w4) \<Rightarrow> (res, w4)
                 | (None, w4) \<Rightarrow>
                     two_pass_workflow e w4 ff q (temp_output_dir_of fo rid)
                       (final_video_path_temp_of fo cf rid) (final_video_path_dest_of fo cf rid))
           else two_pass_workflow e
                  (log WARNING ''ZIP file already exists. Skipping download and extraction.'' w3)
                  ff q (temp_output_dir_of fo rid)
                  (final_video_path_temp_of fo cf rid) (final_video_path_dest_of fo cf rid))"
proof -
  let ?w0 = "log INFO ''--- Processing URL: {url} ---'' w"
  let ?temp = "temp_output_dir_of fo rid"
  obtain r1 w1 where R: "get_id_and_type e sess ?w0 url = (r1, w1)" by fastforce
  have "fst (get_id_and_type e sess ?w0 url) = fst (get_id_and_type e sess w url)"
    by (rule resolver_fst_indep) simp
  with r R have r1: "r1 = Some (rid, k)" by simp
  from r have ne: "rid \<noteq> []" by (rule resolver_nonempty)
  have eff: "files w1 = files w" "dirs w1 = dirs w" "requests w1 = Suc (requests w)"
    using resolver_effect[of is_move e sess ?w0 url] R by simp_all
  have tr1: "\<And>f. (\<forall>l m. \<not> f (Log l m)) \<Longrightarrow>
                filter f (trace w1) = filter f (trace w) @ filter f [Http_get url]"
  proof -
    fix f :: "event \<Rightarrow> bool" assume "\<forall>l m. \<not> f (Log l m)"
    then show "filter f (trace w1) = filter f (trace w) @ filter f [Http_get url]"
      using resolver_effect[of f e sess ?w0 url] R by simp
  qed
  from resolver_grows[of e sess ?w0 url] R obtain post1 where
    g1: "trace w1 = trace ?w0 @ post1" by auto
  from nf eff have "\<not> isfile w1 ?temp" using same_files_dirs(1)[of w1 w] by simp
  then obtain w2 where w2: "makedirs w1 ?temp = Inr w2" "files w2 = files w1"
    "requests w2 = requests w1" "trace w2 = trace w1 @ [Makedirs ?temp]" "isdir w2 ?temp"
    "dirs w2 = (if isdir w1 ?temp then dirs w1 else dirs w1 @ [?temp])"
    "\<forall>q. exists w1 q \<longrightarrow> exists w2 q" "\<forall>q. q \<noteq> ?temp \<longrightarrow> exists w2 q = exists w1 q"
    using makedirs_effect by blast
  let ?w3 = "log INFO (''Final video will be named: '{output_filename}'' @ [CHR 0x27]) w2"
  have ex1: "\<And>p. exists w1 p = exists w p" using eff same_files_dirs(3)[of w1 w] by simp
  have main: "process_single_url e w url cf fo ff q =
          (if exists ?w3 (final_video_path_dest_of fo cf rid)
           then (Returned True,
                 cleanup_temp_directory e
                   (log WARNING ''Output file '{output_filename}' already exists in the destination. Skipping.'' ?w3)
                   ?temp)
           else if \<not> exists ?w3 (zip_path_of fo rid)
           then (case download_and_extract e sess ?w3 url rid k (zip_path_of fo rid) ?temp of
                   (Some res, w4) \<Rightarrow> (res, w4)
                 | (None, w4) \<Rightarrow>
                     two_pass_workflow e w4 ff q ?temp
                       (final_video_path_temp_of fo cf rid) (final_video_path_dest_of fo cf rid))
           else two_pass_workflow e
                  (log WARNING ''ZIP file already exists. Skipping download and extraction.'' ?w3)
                  ff q ?temp
                  (final_video_path_temp_of fo cf rid) (final_video_path_dest_of fo cf rid))"
    using ss R r1 ne w2(1) by (simp add: process_single_url_def Let_def)
  have a: "isdir ?w3 ?temp" using w2 by simp
  have b: "files ?w3 = files w" using w2 eff by simp
  have c: "requests ?w3 = Suc (requests w)" using w2 eff by simp
  have d: "\<forall>p. exists w p \<longrightarrow> exists ?w3 p" using w2(7) ex1 by simp
  have g: "\<forall>p. p \<noteq> ?temp \<longrightarrow> exists ?w3 p = exists w p" using w2(8) ex1 by simp
  have i: "dirs ?w3 = (if isdir w ?temp then dirs w else dirs w @ [?temp])"
    using w2(6) eff by (simp add: isdir_def)
  have j: "\<exists>pre. trace ?w3 = trace w @ pre" using w2(4) g1 by simp
  have h: "\<forall>f. (\<forall>l m. \<not> f (Log l m)) \<longrightarrow>
            filter f (trace ?w3) = filter f (trace w) @ filter f [Http_get url, Makedirs ?temp]"
    using w2(4) tr1 by simp
  show ?thesis
    by (rule exI[of _ ?w3]) (intro conjI a b c i j d g h main)
qed

lemma skipped_job:
  assumes ss: "setup_session w (cookies fo) = Inr sess"
    and r: "fst (get_id_and_type e sess w url) = Some (rid, k)"
    and nf: "\<not> isfile w (temp_output_dir_of fo rid)"
    and ex: "exists w (final_video_path_dest_of fo cf rid)"
    and blind: "\<And>l m. \<not> f (Log l m)"
  shows "fst (process_single_url e w url cf fo ff q) = Returned True
    \<and> requests (snd (process_single_url e w url cf fo ff q)) = Suc (requests w)
    \<and> filter f (trace (snd (process_single_url e w url cf fo ff q)))
        = filter f (trace w)
            @ filter f [Http_get url, Makedirs (temp_output_dir_of fo rid),
                        Rmtree (temp_output_dir_of fo rid)]
    \<and> (\<not> rmtree_raises e (temp_output_dir_of fo rid)
         \<longrightarrow> \<not> exists (snd (process_single_url e w url cf fo ff q)) (temp_output_dir_of fo rid))"
proof -
  let ?temp = "temp_output_dir_of fo rid"
  let ?msg = "''Output file '{output_filename}' already exists in the destination. Skipping.''"
  from job_prefix[OF ss r nf, of cf ff q] obtain w3 where w3:
    "isdir w3 ?temp" "requests w3 = Suc (requests w)" "\<forall>p. exists w p \<longrightarrow> exists w3 p"
    "\<forall>f. (\<forall>l m. \<not> f (Log l m)) \<longrightarrow>
        filter f (trace w3) = filter f (trace w) @ filter f [Http_get url, Makedirs ?temp]"
    "process_single_url e w url cf fo ff q =
       (if exists w3 (final_video_path_dest_of fo cf rid)
        then (Returned True, cleanup_temp_directory e (log WARNING ?msg w3) ?temp)
        else if \<not> exists w3 (zip_path_of fo rid)
        then (case download_and_extract e sess w3 url rid k (zip_path_of fo rid) ?temp of
                (Some res, w4) \<Rightarrow> (res, w4)
              | (None, w4) \<Rightarrow>
                  two_pass_workflow e w4 ff q ?temp
                    (final_video_path_temp_of fo cf rid) (final_video_path_dest_of fo cf rid))
        else two_pass_workflow e
               (log WARNING ''ZIP file already exists. Skipping download and extraction.'' w3)
               ff q ?temp
               (final_video_path_temp_of fo cf rid) (final_video_path_dest_of fo cf rid))"
    by blast
  from ex w3(3) have "exists w3 (final_video_path_dest_of fo cf rid)" by blast
  with w3(5) have run: "process_single_url e w url cf fo ff q
      = (Returned True, cleanup_temp_directory e (log WARNING ?msg w3) ?temp)"
    by (simp only: if_True)
  from blind w3(4) have t3: "filter f (trace w3)
      = filter f (trace w) @ filter f [Http_get url, Makedirs ?temp]"
    by blast
  have dir: "isdir (log WARNING ?msg w3) ?temp" using w3(1) by simp
  note ce = cleanup_effect[of f e "log WARNING ?msg w3" ?temp, OF blind]
  from ce dir have c1: "requests (cleanup_temp_directory e (log WARNING ?msg w3) ?temp) = Suc (requests w)"
    using w3(2) by simp
  from ce dir blind have c2: "filter f (trace (cleanup_temp_directory e (log WARNING ?msg w3) ?temp))
      = filter f (trace w) @ filter f [Http_get url, Makedirs ?temp, Rmtree ?temp]"
    using t3 by simp
  from ce dir have c3: "\<not> rmtree_raises e ?temp
      \<longrightarrow> \<not> exists (cleanup_temp_directory e (log WARNING ?msg w3) ?temp) ?temp"
    by blast
  show ?thesis
    unfolding run fst_conv snd_conv using c1 c2 c3 by blast
qed

text \<open>
  Claim C10. When the destination exists, the job returns \<open>True\<close>, after it has called the
  removal of the working directory that it made: the directory is gone, unless the
  removal raises, which the cleanup swallows. The claim presupposes a job that reaches the
  test of the destination: the session is set up, the resolver gives an identifier, and
  the working directory can be made.
\<close>

theorem existing_destination_returns_true:
  assumes "setup_session w (cookies fo) = Inr sess"
    and "fst (get_id_and_type e sess w url) = Some (rid, k)"
    and "\<not> isfile w (temp_output_dir_of fo rid)"
    and "exists w (final_video_path_dest_of fo cf rid)"
  shows "fst (process_single_url e w url cf fo ff q) = Returned True
    \<and> filter is_rmtree (trace (snd (process_single_url e w url cf fo ff q)))
        = filter is_rmtree (trace w) @ [Rmtree (temp_output_dir_of fo rid)]
    \<and> (\<not> rmtree_raises e (temp_output_dir_of fo rid)
         \<longrightarrow> \<not> exists (snd (process_single_url e w url cf fo ff q)) (temp_output_dir_of fo rid))"
  using skipped_job[OF assms, of is_rmtree ff q] by simp

theorem existing_destination_returns_true_witness:
  "fst (process_single_url offline finished ''https://my.adobeconnect.com/p123abc/'' None
          plain_ops transcoder ''medium'') = Returned True
   \<and> \<not> exists (snd (process_single_url offline finished ''https://my.adobeconnect.com/p123abc/''
                      None plain_ops transcoder ''medium'')) ''/dl/adobe_connect_p123abc''"
proof -
  let ?u = "''https://my.adobeconnect.com/p123abc/''"
  have h1: "setup_session finished (cookies plain_ops) = Inr anonymous"
    by code_simp
  have h2: "fst (get_id_and_type offline anonymous finished ?u) = Some (''p123abc'', Path_id)"
    by code_simp
  have h3: "\<not> isfile finished (temp_output_dir_of plain_ops ''p123abc'')"
    by code_simp
  have h4: "exists finished (final_video_path_dest_of plain_ops None ''p123abc'')"
    by code_simp
  have h5: "\<not> rmtree_raises offline (temp_output_dir_of plain_ops ''p123abc'')"
    by code_simp
  have h6: "temp_output_dir_of plain_ops ''p123abc'' = ''/dl/adobe_connect_p123abc''"
    by code_simp
  show ?thesis
    using existing_destination_returns_true [OF h1 h2 h3 h4, of transcoder "''medium''"] h5 h6
    by simp
qed

text \<open>
  Claim C1, as the specification states it, at a world in which the video of the recording
  is in the download directory before the job starts: the job would make no request. It
  makes one, to the address of the recording, before it tests the destination.
\<close>

theorem existing_destination_still_requests:
  "exists finished (final_video_path_dest_of plain_ops None ''p123abc'')
   \<and> fst (get_id_and_type offline anonymous finished ''https://my.adobeconnect.com/p123abc/'')
       = Some (''p123abc'', Path_id)
   \<and> requests finished = 0
   \<and> requests (snd (process_single_url offline finished ''https://my.adobeconnect.com/p123abc/''
                      None plain_ops transcoder ''medium'')) = 1
   \<and> filter is_http_get (trace (snd (process_single_url offline finished
                      ''https://my.adobeconnect.com/p123abc/'' None plain_ops transcoder ''medium'')))
       = [Http_get ''https://my.adobeconnect.com/p123abc/'']"
  by code_simp

text \<open>
  Claim C1, amended. For a job whose destination exists when it starts, processing the
  address makes exactly one request, the resolver's request for the page of the recording,
  which comes before the test of the destination since the destination is named after the
  identifier; it makes no request for the account identifier or for an archive, and no
  call of the transcoder; and it calls the removal of the working directory that it made,
  which is gone afterwards unless the removal raises.
\<close>

theorem existing_destination_one_request:
  assumes "setup_session w (cookies fo) = Inr sess"
    and "fst (get_id_and_type e sess w url) = Some (rid, k)"
    and "\<not> isfile w (temp_output_dir_of fo rid)"
    and "exists w (final_video_path_dest_of fo cf rid)"
  shows "requests (snd (process_single_url e w url cf fo ff q)) = Suc (requests w)
    \<and> filter is_http_get (trace (snd (process_single_url e w url cf fo ff q)))
        = filter is_http_get (trace w) @ [Http_get url]
    \<and> filter is_transcode (trace (snd (process_single_url e w url cf fo ff q)))
        = filter is_transcode (trace w)
    \<and> filter is_archive_write (trace (snd (process_single_url e w url cf fo ff q)))
        = filter is_archive_write (trace w)
    \<and> filter is_rmtree (trace (snd (process_single_url e w url cf fo ff q)))
        = filter is_rmtree (trace w) @ [Rmtree (temp_output_dir_of fo rid)]
    \<and> (\<not> rmtree_raises e (temp_output_dir_of fo rid)
         \<longrightarrow> \<not> exists (snd (process_single_url e w url cf fo ff q)) (temp_output_dir_of fo rid))"
  using skipped_job[OF assms, of is_http_get ff q] skipped_job[OF assms, of is_transcode ff q]
    skipped_job[OF assms, of is_archive_write ff q] skipped_job[OF assms, of is_rmtree ff q]
  by simp

theorem existing_destination_one_request_witness:
  "requests (snd (process_single_url (serving ''sco-id=4711'') finished
                    ''https://my.adobeconnect.com/p123abc/'' (Some ''recording_p123abc'')
                    plain_ops transcoder ''high'')) = 1
   \<and> filter is_transcode (trace (snd (process_single_url (serving ''sco-id=4711'') finished
                    ''https://my.adobeconnect.com/p123abc/'' (Some ''recording_p123abc'')
                    plain_ops transcoder ''high''))) = []
   \<and> \<not> exists (snd (process_single_url (serving ''sco-id=4711'') finished
                    ''https://my.adobeconnect.com/p123abc/'' (Some ''recording_p123abc'')
                    plain_ops transcoder ''high'')) ''/dl/adobe_connect_4711''"
proof -
  let ?u = "''https://my.adobeconnect.com/p123abc/''" and ?e = "serving ''sco-id=4711''"
  have h1: "setup_session finished (cookies plain_ops) = Inr anonymous"
    by code_simp
  have h2: "fst (get_id_and_type ?e anonymous finished ?u) = Some (''4711'', Sco_id)"
    by code_simp
  have h3: "\<not> isfile finished (temp_output_dir_of plain_ops ''4711'')"
    by code_simp
  have h4: "exists finished (final_video_path_dest_of plain_ops (Some ''recording_p123abc'') ''4711'')"
    by code_simp
  have h5: "\<not> rmtree_raises ?e (temp_output_dir_of plain_ops ''4711'')"
    by code_simp
  have h6: "temp_output_dir_of plain_ops ''4711'' = ''/dl/adobe_connect_4711''"
    by code_simp
  have h7: "requests finished = 0" "trace finished = []"
    by (simp_all add: finished_def)
  show ?thesis
    using existing_destination_one_request [OF h1 h2 h3 h4, of transcoder "''high''"] h5 h6 h7
    by simp
qed

section \<open>Properties of the Archive Fetcher\<close>










section \<open>Effects of the two-pass workflow\<close>

lemma cleanup_blind:
  assumes "\<And>l m. \<not> f (Log l m)" and "\<not> f (Rmtree d)"
  shows "filter f (trace (cleanup_temp_directory e w d)) = filter f (trace w)"
    and "requests (cleanup_temp_directory e w d) = requests w"
  using cleanup_effect[of f e w d] assms by simp_all

lemma cleanup_grows: "\<exists>post. trace (cleanup_temp_directory e w d) = trace w @ post"
  by (simp add: cleanup_temp_directory_def Let_def rmtree_def)

lemma cleanup_tail:
  assumes "\<And>l m. \<not> f (Log l m)" and "\<not> f (Rmtree d)"
    and "filter f (trace w') = filter f (trace w)" and "requests w' = requests w"
    and "\<exists>post. trace w' = trace w @ post"
  shows "filter f (trace (cleanup_temp_directory e w' d)) = filter f (trace w)
    \<and> requests (cleanup_temp_directory e w' d) = requests w
    \<and> (\<exists>post. trace (cleanup_temp_directory e w' d) = trace w @ post)"
proof -
  from assms(5) obtain post where "trace w' = trace w @ post" by blast
  moreover from cleanup_grows obtain post' where
    "trace (cleanup_temp_directory e w' d) = trace w' @ post'" by blast
  ultimately have "trace (cleanup_temp_directory e w' d) = trace w @ post @ post'" by simp
  then have "\<exists>post. trace (cleanup_temp_directory e w' d) = trace w @ post" by blast
  with assms(1-4) show ?thesis by (simp add: cleanup_blind)
qed

lemma find_media_streams_effect:
  "files (snd (find_media_streams w d)) = files w
   \<and> dirs (snd (find_media_streams w d)) = dirs w
   \<and> requests (snd (find_media_streams w d)) = requests w
   \<and> (\<exists>post. trace (snd (find_media_streams w d))
                = trace w @ Log INFO ''Scanning directory for media streams...'' # post
              \<and> (\<forall>f. (\<forall>l m. \<not> f (Log l m)) \<longrightarrow> filter f post = []))"
  by (auto simp: find_media_streams_def Let_def split: sum.splits)

lemma leave_fields [simp]:
  "dirs (leave p c w) = dirs w" "requests (leave p c w) = requests w" "trace (leave p c w) = trace w"
  by (simp_all add: leave_def split: option.splits)

text \<open>
  The passes make no request, write no archive and extract nothing: a projection of the
  trace that is blind to log lines, to the calls of the transcoder, to moves and to
  removals is left as it was. The trace only grows.
\<close>

lemma final_merge_blind:
  assumes blind: "\<And>l m. \<not> f (Log l m)" and pipe: "\<And>ev. is_pipeline ev \<Longrightarrow> \<not> f ev"
    and rm: "\<And>d. \<not> f (Rmtree d)"
  shows "filter f (trace (snd (final_merge e w ff q temp nm ft dest))) = filter f (trace w)
    \<and> requests (snd (final_merge e w ff q temp nm ft dest)) = requests w
    \<and> (\<exists>post. trace (snd (final_merge e w ff q temp nm ft dest)) = trace w @ post)"
proof -
  have p: "\<And>v a out q ok. \<not> f (Merge v a out q ok)" "\<And>s d. \<not> f (Move s d)"
    using pipe by (simp_all add: is_pipeline_def)
  obtain ok_m out_m where m: "merge_normalized_streams ff (files w) nm ft q = (ok_m, out_m)"
    by fastforce
  let ?w4 = "leave ft out_m (emit (Merge (video_path nm) (audio_path nm) ft q ok_m) w)"
  show ?thesis
  proof (cases ok_m)
    case False
    with m have r: "final_merge e w ff q temp nm ft dest
      = (Returned False, cleanup_temp_directory e
           (log CRITICAL ''Failed to create the final video file after all attempts.'' ?w4) temp)"
      by (simp add: final_merge_def)
    show ?thesis
      unfolding r snd_conv using blind rm p by (intro cleanup_tail) simp_all
  next
    case True
    let ?w4' = "log INFO ''Moving final video to main download directory...'' ?w4"
    show ?thesis
    proof (cases "shutil_move ?w4' ft dest")
      case (Inl err)
      with True m have r: "final_merge e w ff q temp nm ft dest = (Raised err, ?w4')"
        by (simp add: final_merge_def)
      show ?thesis unfolding r snd_conv using blind p by simp
    next
      case (Inr w5)
      with True m have r: "final_merge e w ff q temp nm ft dest
        = (Returned True, cleanup_temp_directory e
             (log INFO ''Success! Video saved to: {os.path.abspath(final_video_path_dest)}'' w5) temp)"
        by (simp add: final_merge_def)
      from Inr have w5: "trace w5 = trace ?w4' @ [Move ft dest]" "requests w5 = requests w"
        by (auto simp: shutil_move_def Let_def split: option.splits if_splits)
      show ?thesis
        unfolding r snd_conv using blind rm p w5 by (intro cleanup_tail) simp_all
    qed
  qed
qed

lemma audio_pass_blind:
  assumes blind: "\<And>l m. \<not> f (Log l m)" and pipe: "\<And>ev. is_pipeline ev \<Longrightarrow> \<not> f ev"
    and rm: "\<And>d. \<not> f (Rmtree d)"
  shows "filter f (trace (snd (audio_pass e w ff q temp ms vf nm ft dest))) = filter f (trace w)
    \<and> requests (snd (audio_pass e w ff q temp ms vf nm ft dest)) = requests w
    \<and> (\<exists>post. trace (snd (audio_pass e w ff q temp ms vf nm ft dest)) = trace w @ post)"
proof -
  have p: "\<And>fs out ok. \<not> f (Normalize_audio fs out ok)"
    using pipe by (simp add: is_pipeline_def)
  let ?af = "case streams_get ms ''cameravoip'' of None \<Rightarrow> vf | Some fs \<Rightarrow> fs"
  obtain ok_a out_a where a: "normalize_audio_stream ff (files w) ?af (audio_path nm) = (ok_a, out_a)"
    by fastforce
  let ?w3 = "leave (audio_path nm) out_a (emit (Normalize_audio ?af (audio_path nm) ok_a) w)"
  show ?thesis
  proof (cases ok_a)
    case False
    with a have r: "audio_pass e w ff q temp ms vf nm ft dest
      = (Returned False, cleanup_temp_directory e
           (log CRITICAL ''Failed during audio normalization pass.'' ?w3) temp)"
      by (simp add: audio_pass_def)
    show ?thesis
      unfolding r snd_conv using blind rm p by (intro cleanup_tail) simp_all
  next
    case True
    with a have r: "audio_pass e w ff q temp ms vf nm ft dest = final_merge e ?w3 ff q temp nm ft dest"
      by (simp add: audio_pass_def)
    from final_merge_blind[of f e ?w3 ff q temp nm ft dest, OF blind pipe rm]
    show ?thesis unfolding r using p by auto
  qed
qed

lemma video_pass_blind:
  assumes blind: "\<And>l m. \<not> f (Log l m)" and pipe: "\<And>ev. is_pipeline ev \<Longrightarrow> \<not> f ev"
    and rm: "\<And>d. \<not> f (Rmtree d)"
  shows "filter f (trace (snd (video_pass e w ff q temp ms vf nm ft dest))) = filter f (trace w)
    \<and> requests (snd (video_pass e w ff q temp ms vf nm ft dest)) = requests w
    \<and> (\<exists>post. trace (snd (video_pass e w ff q temp ms vf nm ft dest)) = trace w @ post)"
proof -
  have p: "\<And>fs out q ok. \<not> f (Normalize_video fs out q ok)"
    using pipe by (simp add: is_pipeline_def)
  obtain ok_v out_v where v: "normalize_video_stream ff (files w) vf (video_path nm) q = (ok_v, out_v)"
    by fastforce
  let ?w2 = "leave (video_path nm) out_v (emit (Normalize_video vf (video_path nm) q ok_v) w)"
  show ?thesis
  proof (cases ok_v)
    case False
    with v have r: "video_pass e w ff q temp ms vf nm ft dest
      = (Returned False, cleanup_temp_directory e
           (log CRITICAL ''Failed during video normalization pass.'' ?w2) temp)"
      by (simp add: video_pass_def)
    show ?thesis
      unfolding r snd_conv using blind rm p by (intro cleanup_tail) simp_all
  next
    case True
    with v have r: "video_pass e w ff q temp ms vf nm ft dest
        = audio_pass e ?w2 ff q temp ms vf nm ft dest"
      by (simp add: video_pass_def)
    from audio_pass_blind[of f e ?w2 ff q temp ms vf nm ft dest, OF blind pipe rm]
    show ?thesis unfolding r using p by auto
  qed
qed

lemma two_pass_blind:
  assumes blind: "\<And>l m. \<not> f (Log l m)" and pipe: "\<And>ev. is_pipeline ev \<Longrightarrow> \<not> f ev"
    and rm: "\<And>d. \<not> f (Rmtree d)"
  shows "filter f (trace (snd (two_pass_workflow e w ff q temp ft dest))) = filter f (trace w)
    \<and> requests (snd (two_pass_workflow e w ff q temp ft dest)) = requests w
    \<and> (\<exists>post. trace (snd (two_pass_workflow e w ff q temp ft dest))
                 = trace w @ Log INFO ''Scanning directory for media streams...'' # post)"
proof -
  obtain r1 w1 where F: "find_media_streams w temp = (r1, w1)" by fastforce
  from find_media_streams_effect[of w temp] F blind obtain post where
    w1: "requests w1 = requests w" "filter f (trace w1) = filter f (trace w)"
      "trace w1 = trace w @ Log INFO ''Scanning directory for media streams...'' # post"
    by auto
  show ?thesis
  proof (cases r1)
    case (Inl err)
    with F have "two_pass_workflow e w ff q temp ft dest = (Raised err, w1)"
      by (simp add: two_pass_workflow_def)
    with w1 show ?thesis by simp
  next
    case (Inr ms)
    show ?thesis
    proof (cases "streams_get ms ''screenshare''")
      case None
      let ?c = "cleanup_temp_directory e
           (log CRITICAL ''CRITICAL: 'screenshare' stream is missing. Cannot proceed.'' w1) temp"
      from None Inr F have r: "two_pass_workflow e w ff q temp ft dest = (Returned False, ?c)"
        by (simp add: two_pass_workflow_def)
      have "filter f (trace ?c) = filter f (trace w) \<and> requests ?c = requests w
          \<and> (\<exists>post. trace ?c = trace w @ post)"
        using blind rm w1 by (intro cleanup_tail) simp_all
      moreover from cleanup_grows obtain post' where
        "trace ?c = trace (log CRITICAL ''CRITICAL: 'screenshare' stream is missing. Cannot proceed.'' w1) @ post'"
        by blast
      ultimately show ?thesis
        unfolding r snd_conv using w1(3) by simp
    next
      case (Some vf)
      let ?nm = "\<lparr>video_path = os_path_join temp ''normalized_video.mkv'',
                  audio_path = os_path_join temp ''normalized_audio.m4a''\<rparr>"
      from Some Inr F have r: "two_pass_workflow e w ff q temp ft dest
          = video_pass e w1 ff q temp ms vf ?nm ft dest"
        by (simp add: two_pass_workflow_def)
      from video_pass_blind[of f e w1 ff q temp ms vf ?nm ft dest, OF blind pipe rm]
      show ?thesis unfolding r using w1 by auto
    qed
  qed
qed

section \<open>A job that finds an archive in its working directory\<close>

lemma pipeline_disjoint:
  assumes "is_pipeline ev"
  shows "\<not> is_http_get ev" and "\<not> is_archive_write ev" and "\<not> is_extract ev"
    and "\<not> is_rmtree ev"
  using assms by (cases ev; simp add: is_pipeline_def)+

text \<open>
  Claim C7, as the specification states it, at a world in which the archive is in the
  working directory and nothing is extracted, with an archive reader that would find a
  screen stream: the extraction would run on the archive. No extraction is made, the
  classifier finds no screen stream, and the job fails.
\<close>

theorem existing_archive_is_not_extracted:
  "exists interrupted (zip_path_of plain_ops ''p123abc'')
   \<and> fst (get_id_and_type unpacking anonymous interrupted ''https://my.adobeconnect.com/p123abc/'')
       = Some (''p123abc'', Path_id)
   \<and> unzip unpacking ''PK34'' = Some [(''screenshare_1.flv'', ''s1''), (''cameravoip_1.flv'', ''c1'')]
   \<and> filter is_extract (trace (snd (process_single_url unpacking interrupted
         ''https://my.adobeconnect.com/p123abc/'' None plain_ops transcoder ''medium''))) = []
   \<and> fst (process_single_url unpacking interrupted
         ''https://my.adobeconnect.com/p123abc/'' None plain_ops transcoder ''medium'') = Returned False"
  by code_simp

text \<open>
  Claim C7, amended. When the archive is already in the working directory, and the
  destination does not exist, the job skips the download and the extraction together,
  with the warning that says so: it makes the request of the resolver and no other, writes
  no archive, extracts nothing, and goes from the warning straight to the classification
  of what the working directory holds.
\<close>

theorem existing_archive_skips_download_and_extraction:
  assumes ss: "setup_session w (cookies fo) = Inr sess"
    and r: "fst (get_id_and_type e sess w url) = Some (rid, k)"
    and nf: "\<not> isfile w (temp_output_dir_of fo rid)"
    and nex: "\<not> exists w (final_video_path_dest_of fo cf rid)"
    and neq: "final_video_path_dest_of fo cf rid \<noteq> temp_output_dir_of fo rid"
    and zip: "exists w (zip_path_of fo rid)"
  shows "requests (snd (process_single_url e w url cf fo ff q)) = Suc (requests w)
    \<and> filter is_http_get (trace (snd (process_single_url e w url cf fo ff q)))
        = filter is_http_get (trace w) @ [Http_get url]
    \<and> filter is_archive_write (trace (snd (process_single_url e w url cf fo ff q)))
        = filter is_archive_write (trace w)
    \<and> filter is_extract (trace (snd (process_single_url e w url cf fo ff q)))
        = filter is_extract (trace w)
    \<and> (\<exists>pre post. trace (snd (process_single_url e w url cf fo ff q))
          = trace w @ pre
              @ [Log WARNING ''ZIP file already exists. Skipping download and extraction.'',
                 Log INFO ''Scanning directory for media streams...''] @ post)"
proof -
  let ?temp = "temp_output_dir_of fo rid"
  let ?dest = "final_video_path_dest_of fo cf rid"
  let ?ft = "final_video_path_temp_of fo cf rid"
  let ?msg = "''ZIP file already exists. Skipping download and extraction.''"
  from job_prefix[OF ss r nf, of cf ff q] obtain w3 where w3:
    "requests w3 = Suc (requests w)" "\<exists>pre. trace w3 = trace w @ pre"
    "\<forall>p. exists w p \<longrightarrow> exists w3 p" "\<forall>p. p \<noteq> ?temp \<longrightarrow> exists w3 p = exists w p"
    "\<forall>f. (\<forall>l m. \<not> f (Log l m)) \<longrightarrow>
        filter f (trace w3) = filter f (trace w) @ filter f [Http_get url, Makedirs ?temp]"
    "process_single_url e w url cf fo ff q =
       (if exists w3 ?dest
        then (Returned True,
              cleanup_temp_directory e
                (log WARNING ''Output file '{output_filename}' already exists in the destination. Skipping.'' w3)
                ?temp)
        else if \<not> exists w3 (zip_path_of fo rid)
        then (case download_and_extract e sess w3 url rid k (zip_path_of fo rid) ?temp of
                (Some res, w4) \<Rightarrow> (res, w4)
              | (None, w4) \<Rightarrow> two_pass_workflow e w4 ff q ?temp ?ft ?dest)
        else two_pass_workflow e (log WARNING ?msg w3) ff q ?temp ?ft ?dest)"
    by blast
  from nex neq w3(4) have "\<not> exists w3 ?dest" by simp
  moreover from zip w3(3) have "exists w3 (zip_path_of fo rid)" by blast
  ultimately have run: "process_single_url e w url cf fo ff q
      = two_pass_workflow e (log WARNING ?msg w3) ff q ?temp ?ft ?dest"
    using w3(6) by simp
  let ?w' = "snd (two_pass_workflow e (log WARNING ?msg w3) ff q ?temp ?ft ?dest)"
  have t: "\<And>f. (\<And>l m. \<not> f (Log l m)) \<Longrightarrow> (\<And>ev. is_pipeline ev \<Longrightarrow> \<not> f ev)
          \<Longrightarrow> (\<And>d. \<not> f (Rmtree d)) \<Longrightarrow> \<not> f (Makedirs ?temp)
          \<Longrightarrow> filter f (trace ?w') = filter f (trace w) @ filter f [Http_get url]"
  proof -
    fix f :: "event \<Rightarrow> bool"
    assume b: "\<And>l m. \<not> f (Log l m)" and p: "\<And>ev. is_pipeline ev \<Longrightarrow> \<not> f ev"
      and rm: "\<And>d. \<not> f (Rmtree d)" and mk: "\<not> f (Makedirs ?temp)"
    from two_pass_blind[of f e "log WARNING ?msg w3" ff q ?temp ?ft ?dest, OF b p rm]
    have "filter f (trace ?w') = filter f (trace (log WARNING ?msg w3))" by blast
    also have "\<dots> = filter f (trace w3)" using b by simp
    also have "\<dots> = filter f (trace w) @ filter f [Http_get url, Makedirs ?temp]"
      using w3(5) b by blast
    finally show "filter f (trace ?w') = filter f (trace w) @ filter f [Http_get url]"
      using mk by simp
  qed
  have tp: "requests ?w' = requests (log WARNING ?msg w3)
      \<and> (\<exists>post. trace ?w' = trace (log WARNING ?msg w3)
            @ Log INFO ''Scanning directory for media streams...'' # post)"
    using two_pass_blind[of is_http_get e "log WARNING ?msg w3" ff q ?temp ?ft ?dest]
      pipeline_disjoint(1) by simp
  have a: "requests ?w' = Suc (requests w)"
    using tp w3(1) by simp
  have b: "filter is_http_get (trace ?w') = filter is_http_get (trace w) @ [Http_get url]"
    using t[of is_http_get] pipeline_disjoint(1) by simp
  have c: "filter is_archive_write (trace ?w') = filter is_archive_write (trace w)"
    using t[of is_archive_write] pipeline_disjoint(2) by simp
  have d: "filter is_extract (trace ?w') = filter is_extract (trace w)"
    using t[of is_extract] pipeline_disjoint(3) by simp
  from w3(2) obtain pre where pre: "trace w3 = trace w @ pre" by blast
  from tp obtain post where "trace ?w' = trace (log WARNING ?msg w3)
      @ Log INFO ''Scanning directory for media streams...'' # post"
    by blast
  with pre have "trace ?w' = trace w @ pre
      @ [Log WARNING ?msg, Log INFO ''Scanning directory for media streams...''] @ post"
    by simp
  then have g: "\<exists>pre post. trace ?w' = trace w @ pre
      @ [Log WARNING ?msg, Log INFO ''Scanning directory for media streams...''] @ post"
    by blast
  show ?thesis unfolding run using a b c d g by blast
qed

theorem existing_archive_skips_download_and_extraction_witness:
  "requests (snd (process_single_url unpacking interrupted
       ''https://my.adobeconnect.com/p123abc/'' None plain_ops transcoder ''medium'')) = 1
   \<and> filter is_http_get (trace (snd (process_single_url unpacking interrupted
       ''https://my.adobeconnect.com/p123abc/'' None plain_ops transcoder ''medium'')))
       = [Http_get ''https://my.adobeconnect.com/p123abc/'']
   \<and> filter is_archive_write (trace (snd (process_single_url unpacking interrupted
       ''https://my.adobeconnect.com/p123abc/'' None plain_ops transcoder ''medium''))) = []"
proof -
  let ?u = "''https://my.adobeconnect.com/p123abc/''"
  have h1: "setup_session interrupted (cookies plain_ops) = Inr anonymous"
    by code_simp
  have h2: "fst (get_id_and_type unpacking anonymous interrupted ?u) = Some (''p123abc'', Path_id)"
    by code_simp
  have h3: "\<not> isfile interrupted (temp_output_dir_of plain_ops ''p123abc'')"
    by code_simp
  have h4: "\<not> exists interrupted (final_video_path_dest_of plain_ops None ''p123abc'')"
    by code_simp
  have h5: "final_video_path_dest_of plain_ops None ''p123abc'' \<noteq> temp_output_dir_of plain_ops ''p123abc''"
    by code_simp
  have h6: "exists interrupted (zip_path_of plain_ops ''p123abc'')"
    by code_simp
  have h7: "requests interrupted = 0" "trace interrupted = []"
    by (simp_all add: interrupted_def)
  show ?thesis
    using existing_archive_skips_download_and_extraction [OF h1 h2 h3 h4 h5 h6, of transcoder "''medium''"] h7
    by simp
qed

section \<open>Paths inside and outside the working directory\<close>

lemma startswith_append [simp]: "startswith (a @ b) a"
  by (simp add: startswith_def)

lemma startswith_cancel [simp]: "startswith (p @ s) (p @ t) = startswith s t"
  by (simp add: startswith_def)

lemma not_startswith_slash: "CHR ''/'' \<notin> set x \<Longrightarrow> \<not> startswith x ''/''"
  by (cases x) (auto simp: startswith_def)

lemma within_join:
  assumes "d \<noteq> []" and "\<not> startswith x ''/''"
  shows "within d (os_path_join d x)"
proof (cases "endswith d ''/''")
  case True
  with assms show ?thesis by (simp add: os_path_join_def within_def)
next
  case False
  have "startswith (d @ ''/'' @ x) (d @ ''/'')"
    using startswith_append[of "d @ ''/''" x] by simp
  with False assms show ?thesis by (simp add: os_path_join_def within_def)
qed

lemma join_nonempty: "x \<noteq> [] \<Longrightarrow> os_path_join d x \<noteq> []"
  by (simp add: os_path_join_def)

lemma temp_nonempty: "temp_output_dir_of fo rid \<noteq> []"
  by (simp add: temp_output_dir_of_def join_nonempty)

lemma split_pieces: "x \<in> set (split sep s) \<Longrightarrow> sep \<notin> set x"
proof (induction s arbitrary: x)
  case Nil
  then show ?case by simp
next
  case (Cons c s)
  then show ?case
    using split_nonempty[of sep s] by (auto split: if_splits list.splits)
qed

lemma joined_relative:
  assumes "\<forall>x \<in> set xs. x \<noteq> [] \<and> CHR ''/'' \<notin> set x"
  shows "\<not> startswith (foldr (\<lambda>x acc. if acc = [] then x else x @ ''/'' @ acc) xs []) ''/''"
proof (cases xs)
  case Nil
  then show ?thesis by (simp add: startswith_def)
next
  case (Cons x ys)
  with assms obtain c cs where x: "x = c # cs" "c \<noteq> CHR ''/''"
    by (cases x) auto
  with Cons show ?thesis by (simp add: startswith_def)
qed

lemma arcname_relative: "\<not> startswith (arcname n) ''/''"
  unfolding arcname_def
  by (rule joined_relative) (auto dest: split_pieces)

text \<open>
  With a sanitizer that leaves no slash in a name, the destination is not inside the
  working directory.
\<close>

lemma join_plain:
  assumes "\<not> startswith x ''/''"
  shows "os_path_join m x = (if m = [] \<or> endswith m ''/'' then m else m @ ''/'') @ x"
  using assms by (simp add: os_path_join_def)

lemma endswith_last: "endswith s ''/'' \<Longrightarrow> s \<noteq> [] \<and> last s = CHR ''/''"
  using endswith_slashD[of s] by auto

lemma dest_outside_temp:
  assumes nos: "\<forall>s. CHR ''/'' \<notin> set (safe_filename fo s)"
    and neq: "final_video_path_dest_of fo cf rid \<noteq> temp_output_dir_of fo rid"
  shows "\<not> within (temp_output_dir_of fo rid) (final_video_path_dest_of fo cf rid)"
proof
  let ?m = "get_main_download_dir fo"
  let ?pre = "(if ?m = [] \<or> endswith ?m ''/'' then ?m else ?m @ ''/'')"
  let ?t = "''adobe_connect_'' @ safe_filename fo rid"
  let ?s = "safe_filename fo (output_filename_of fo cf rid)"
  assume u: "within (temp_output_dir_of fo rid) (final_video_path_dest_of fo cf rid)"
  from nos have ns: "CHR ''/'' \<notin> set ?s" and nt: "CHR ''/'' \<notin> set ?t" by auto
  have temp: "temp_output_dir_of fo rid = ?pre @ ?t"
    unfolding temp_output_dir_of_def by (rule join_plain) (simp add: startswith_def)
  have dest: "final_video_path_dest_of fo cf rid = ?pre @ ?s"
    unfolding final_video_path_dest_of_def using ns by (intro join_plain not_startswith_slash)
  have "\<not> endswith (?pre @ ?t) ''/''"
  proof
    assume "endswith (?pre @ ?t) ''/''"
    then have "last (?pre @ ?t) = CHR ''/''" using endswith_last by blast
    then have "last ?t = CHR ''/''" by simp
    moreover have "last ?t \<in> set ?t" by (intro last_in_set) simp
    ultimately show False using nt by metis
  qed
  with u neq temp dest have "startswith (?pre @ ?s) ((?pre @ ?t) @ ''/'')"
    by (simp add: within_def)
  then have "startswith ?s (?t @ ''/'')" by (simp only: append_assoc startswith_cancel)
  then have "take (length (?t @ ''/'')) ?s = ?t @ ''/''" by (simp only: startswith_def)
  then have "CHR ''/'' \<in> set (take (length (?t @ ''/'')) ?s)" by simp
  then have "CHR ''/'' \<in> set ?s" by (meson in_set_takeD)
  with ns show False by blast
qed

section \<open>Steps that are quiet for the working directory\<close>

lemma filter_update_in:
  "\<not> P p \<Longrightarrow> filter (\<lambda>(q, c). P q) (AList.update p v fs) = filter (\<lambda>(q, c). P q) fs"
  by (induction fs) auto

lemma filter_update_out:
  "P p \<Longrightarrow> filter (\<lambda>(q, c). P q) (AList.update p v fs) = AList.update p v (filter (\<lambda>(q, c). P q) fs)"
  by (induction fs) auto

lemma filter_delete_in:
  "\<not> P p \<Longrightarrow> filter (\<lambda>(q, c). P q) (AList.delete p fs) = filter (\<lambda>(q, c). P q) fs"
  by (induction fs) auto

lemma outside_write_within [simp]: "within d p \<Longrightarrow> outside d (write_file p c w) = outside d w"
  using filter_update_in[of "\<lambda>q. \<not> within d q" p c "files w"] by (simp add: outside_def)

lemma outside_leave_within [simp]: "within d p \<Longrightarrow> outside d (leave p c w) = outside d w"
  by (simp add: leave_def split: option.splits)

lemma quiet_refl [simp]: "quiet d w w"
  by (simp add: quiet_def)

lemma quiet_trans: "quiet d w w1 \<Longrightarrow> quiet d w1 w2 \<Longrightarrow> quiet d w w2"
  by (simp add: quiet_def)

lemma quiet_log [simp]: "quiet d w (log l m w') = quiet d w w'"
  by (simp add: quiet_def is_pipeline_def)

lemma map_of_filter_within:
  "\<not> within d p \<Longrightarrow> map_of (filter (\<lambda>(q, c). \<not> within d q) fs) p = map_of fs p"
  by (induction fs) auto

lemma map_of_outside: "\<not> within d p \<Longrightarrow> map_of (outside d w) p = map_of (files w) p"
  by (simp add: outside_def map_of_filter_within)

lemma quiet_emit: "\<not> is_pipeline ev \<Longrightarrow> quiet d w (emit ev w') = quiet d w w'"
  by (simp add: quiet_def)

lemma quiet_write: "within d p \<Longrightarrow> quiet d w (write_file p c w') = quiet d w w'"
  by (simp add: quiet_def)

lemma quiet_leave: "within d p \<Longrightarrow> quiet d w (leave p c w') = quiet d w w'"
  by (simp add: quiet_def)

lemma quiet_write_chunks:
  "within d p \<Longrightarrow> quiet d w0 w \<Longrightarrow> quiet d w0 (write_chunks p cs w)"
proof (induction cs arbitrary: w)
  case Nil
  then show ?case by simp
next
  case (Cons c cs)
  show ?case
    using Cons.prems
    by (simp add: Cons.IH quiet_emit quiet_write is_pipeline_def)
qed

lemma quiet_session_get:
  "quiet d w0 w \<Longrightarrow> quiet d w0 (snd (session_get e sess w u))"
  by (simp add: quiet_def session_get_def outside_def is_pipeline_def)

lemma quiet_download:
  assumes "within d p" and "quiet d w0 w"
  shows "quiet d w0 (snd (download_zip_file e sess w u p))"
proof -
  obtain r w1 where s: "session_get e sess w u = (r, w1)" by fastforce
  with quiet_session_get[OF assms(2), of e sess u] have q1: "quiet d w0 w1" by simp
  have "quiet d w0 (write_chunks p cs (write_file p [] (emit (Open_wb p) w1)))" for cs
    using assms(1) q1
    by (intro quiet_write_chunks) (simp_all add: quiet_write quiet_emit is_pipeline_def)
  with q1 show ?thesis
    by (simp add: download_zip_file_def s Let_def split: http_result.splits)
qed

lemma quiet_try_zip_urls:
  assumes "within d p"
  shows "quiet d w0 w \<Longrightarrow> quiet d w0 (snd (try_zip_urls e sess w us p))"
proof (induction us arbitrary: w)
  case Nil
  then show ?case by simp
next
  case (Cons u us)
  let ?d = "download_zip_file e sess (log INFO ''Trying download from: {zip_url}'' w) u p"
  from Cons.prems have "quiet d w0 (log INFO ''Trying download from: {zip_url}'' w)" by simp
  with assms have q: "quiet d w0 (snd ?d)" by (rule quiet_download)
  show ?case
  proof (cases "fst ?d")
    case True
    with q show ?thesis by (simp add: case_prod_beta)
  next
    case False
    with Cons.IH[OF q] show ?thesis by (simp add: case_prod_beta)
  qed
qed

lemma quiet_construct_zip_urls:
  "quiet d w0 w \<Longrightarrow> quiet d w0 (snd (construct_zip_urls e sess w u rid k))"
  using quiet_session_get[of d w0 w e sess u]
  by (simp add: construct_zip_urls_def get_account_id_def Let_def split_beta
        split: http_result.splits)

lemma quiet_extractall:
  assumes "d \<noteq> []"
  shows "quiet d w0 w \<Longrightarrow> quiet d w0 (extractall d ms w)"
  unfolding extractall_def
proof (induction ms arbitrary: w)
  case Nil
  then show ?case by simp
next
  case (Cons m ms)
  have "within d (os_path_join d (arcname (fst m)))"
    using assms arcname_relative by (rule within_join)
  with Cons.prems have "quiet d w0 (extract_member d w m)"
    by (simp add: extract_member_def quiet_write)
  from Cons.IH[OF this] show ?case by simp
qed

lemma dirs_cleanup:
  "filter (\<lambda>p. \<not> within d p) (dirs (cleanup_temp_directory e w d))
     = filter (\<lambda>p. \<not> within d p) (dirs w)"
  by (simp add: cleanup_temp_directory_def Let_def rmtree_def)

lemma quiet_cleanup:
  assumes "quiet d w0 w"
  shows "quiet d w0 (cleanup_temp_directory e w d)"
proof -
  have "\<And>l m. \<not> is_pipeline (Log l m)" "\<not> is_pipeline (Rmtree d)"
    by (simp_all add: is_pipeline_def)
  then have "filter is_pipeline (trace (cleanup_temp_directory e w d)) = filter is_pipeline (trace w)"
    by (rule cleanup_blind)
  moreover have "outside d (cleanup_temp_directory e w d) = outside d w"
    using cleanup_effect[of is_move e w d] by simp
  ultimately show ?thesis using assms dirs_cleanup[of d e w] by (simp add: quiet_def)
qed

lemma quiet_download_and_extract:
  assumes "within d zp" and "d \<noteq> []" and "quiet d w0 w"
  shows "quiet d w0 (snd (download_and_extract e sess w url rid k zp d))"
proof -
  obtain us w1 where c: "construct_zip_urls e sess w url rid k = (us, w1)" by fastforce
  with quiet_construct_zip_urls[OF assms(3), of e sess url rid k] have q1: "quiet d w0 w1" by simp
  obtain ok w2 where t: "try_zip_urls e sess w1 us zp = (ok, w2)" by fastforce
  with quiet_try_zip_urls[OF assms(1) q1, of e sess us] have q2: "quiet d w0 w2" by simp
  let ?w3 = "log INFO ''Extracting '{os.path.basename(zip_path)}'...'' w2"
  have q3: "quiet d w0 ?w3" using q2 by simp
  have a: "quiet d w0 (cleanup_temp_directory e w2 d)"
    using q2 by (rule quiet_cleanup)
  have b: "quiet d w0 (cleanup_temp_directory e
             (log CRITICAL ''Downloaded file is not a valid zip archive.'' ?w3) d)"
    using q3 by (intro quiet_cleanup) simp
  have x: "quiet d w0 (extractall d ms (emit (Extractall zp d) ?w3))" for ms
    using assms(2) q3 by (intro quiet_extractall) (simp_all add: quiet_emit is_pipeline_def)
  show ?thesis
    using a b x q3
    by (simp add: download_and_extract_def c t Let_def split: sum.splits option.splits)
qed

text \<open>What is tested outside a directory depends on the files and directories outside it.\<close>

lemma outside_exists:
  assumes o: "outside d w' = outside d w"
    and ds: "filter (\<lambda>p. \<not> within d p) (dirs w') = filter (\<lambda>p. \<not> within d p) (dirs w)"
    and nw: "\<not> within d p"
  shows "exists w' p = exists w p"
proof -
  have "map_of (files w') p = map_of (outside d w') p"
    using nw by (rule map_of_outside[symmetric])
  also have "\<dots> = map_of (outside d w) p" by (simp only: o)
  also have "\<dots> = map_of (files w) p" using nw by (rule map_of_outside)
  finally have f: "map_of (files w') p = map_of (files w) p" .
  have "p \<in> set (filter (\<lambda>p. \<not> within d p) (dirs w'))
      \<longleftrightarrow> p \<in> set (filter (\<lambda>p. \<not> within d p) (dirs w))"
    by (simp only: ds)
  with nw have "p \<in> set (dirs w') \<longleftrightarrow> p \<in> set (dirs w)" by simp
  with f show ?thesis by (simp add: exists_def isfile_def isdir_def)
qed

lemma quiet_exists: "quiet d w w' \<Longrightarrow> \<not> within d p \<Longrightarrow> exists w' p = exists w p"
  unfolding quiet_def by (rule outside_exists) blast+

lemma moves_of_pipeline:
  assumes a: "filter is_pipeline xs = filter is_pipeline ys @ zs"
  shows "filter is_move xs = filter is_move ys @ filter is_move zs"
proof -
  have m: "filter is_move l = filter is_move (filter is_pipeline l)" for l
    by (induction l) (auto simp: is_pipeline_def)
  have "filter is_move xs = filter is_move (filter is_pipeline xs)"
    by (rule m)
  also have "\<dots> = filter is_move (filter is_pipeline ys @ zs)"
    by (simp only: a)
  also have "\<dots> = filter is_move (filter is_pipeline ys) @ filter is_move zs"
    by simp
  also have "\<dots> = filter is_move ys @ filter is_move zs"
    by (simp only: m[symmetric])
  finally show ?thesis .
qed

section \<open>How the two-pass workflow ends\<close>

lemma untouched_cleanup:
  assumes "outside d w' = outside d w" and "filter is_move (trace w') = filter is_move (trace w)"
  shows "untouched d w (res, cleanup_temp_directory e w' d)"
proof -
  have "filter is_move (trace (cleanup_temp_directory e w' d)) = filter is_move (trace w')"
    by (rule cleanup_blind) simp_all
  moreover have "outside d (cleanup_temp_directory e w' d) = outside d w'"
    using cleanup_effect[of is_move e w' d] by simp
  ultimately show ?thesis using assms by (simp add: untouched_def)
qed

lemma final_merge_outcome:
  assumes ft: "within d ft" and nd: "\<not> within d dest" and ne: "\<not> exists w dest"
  shows "untouched d w (final_merge e w ff q d nm ft dest)
    \<or> placed d ft dest w [Merge (video_path nm) (audio_path nm) ft q True]
         (final_merge e w ff q d nm ft dest)"
proof -
  obtain ok_m out_m where m: "merge_normalized_streams ff (files w) nm ft q = (ok_m, out_m)"
    by fastforce
  let ?w4 = "leave ft out_m (emit (Merge (video_path nm) (audio_path nm) ft q ok_m) w)"
  have o4: "outside d ?w4 = outside d w" using ft by simp
  show ?thesis
  proof (cases ok_m)
    case False
    with m have r: "final_merge e w ff q d nm ft dest
      = (Returned False, cleanup_temp_directory e
           (log CRITICAL ''Failed to create the final video file after all attempts.'' ?w4) d)"
      by (simp add: final_merge_def)
    have "untouched d w (final_merge e w ff q d nm ft dest)"
      unfolding r using o4 by (intro untouched_cleanup) simp_all
    then show ?thesis ..
  next
    case True
    let ?w4' = "log INFO ''Moving final video to main download directory...'' ?w4"
    show ?thesis
    proof (cases "shutil_move ?w4' ft dest")
      case (Inl err)
      with True m have r: "final_merge e w ff q d nm ft dest = (Raised err, ?w4')"
        by (simp add: final_merge_def)
      have "untouched d w (final_merge e w ff q d nm ft dest)"
        unfolding r using o4 by (simp add: untouched_def)
      then show ?thesis ..
    next
      case (Inr w5)
      with True m have r: "final_merge e w ff q d nm ft dest
        = (Returned True, cleanup_temp_directory e
             (log INFO ''Success! Video saved to: {os.path.abspath(final_video_path_dest)}'' w5) d)"
        by (simp add: final_merge_def)
      have "exists ?w4' dest = exists w dest"
        using o4 nd by (intro outside_exists[of d]) simp_all
      with ne have nd4: "\<not> isdir ?w4' dest" by (simp add: exists_def)
      from Inr nd4 obtain c where c: "map_of (files ?w4') ft = Some c"
        "w5 = write_file dest c ((emit (Move ft dest) ?w4')\<lparr>files := AList.delete ft (files ?w4')\<rparr>)"
        by (auto simp: shutil_move_def Let_def split: option.splits if_splits)
      have "outside d w5 = filter (\<lambda>(p, c). \<not> within d p) (AList.update dest c (AList.delete ft (files ?w4')))"
        unfolding c(2) by (simp add: outside_def)
      also have "\<dots> = AList.update dest c (filter (\<lambda>(p, c). \<not> within d p) (AList.delete ft (files ?w4')))"
        using nd by (intro filter_update_out) simp
      also have "\<dots> = AList.update dest c (filter (\<lambda>(p, c). \<not> within d p) (files ?w4'))"
        using ft by (subst filter_delete_in) simp_all
      also have "\<dots> = AList.update dest c (outside d w)"
        using o4 by (simp add: outside_def)
      finally have o5: "outside d w5 = AList.update dest c (outside d w)" .
      have t5: "filter is_pipeline (trace w5) = filter is_pipeline (trace w)
          @ [Merge (video_path nm) (audio_path nm) ft q True, Move ft dest]"
        unfolding c(2) using True by (simp add: is_pipeline_def)
      let ?w6 = "cleanup_temp_directory e
             (log INFO ''Success! Video saved to: {os.path.abspath(final_video_path_dest)}'' w5) d"
      have "filter is_pipeline (trace ?w6)
          = filter is_pipeline (trace (log INFO ''Success! Video saved to: {os.path.abspath(final_video_path_dest)}'' w5))"
        by (rule cleanup_blind) (simp_all add: is_pipeline_def)
      with t5 have t6: "filter is_pipeline (trace ?w6) = filter is_pipeline (trace w)
          @ [Merge (video_path nm) (audio_path nm) ft q True] @ [Move ft dest]"
        by (simp add: is_pipeline_def)
      have "outside d ?w6 = outside d (log INFO ''Success! Video saved to: {os.path.abspath(final_video_path_dest)}'' w5)"
        using cleanup_effect[of is_move e _ d] by simp
      with o5 have o6: "outside d ?w6 = AList.update dest c (outside d w)" by simp
      have "placed d ft dest w [Merge (video_path nm) (audio_path nm) ft q True]
         (final_merge e w ff q d nm ft dest)"
        unfolding r placed_def fst_conv snd_conv using t6 o6 by blast
      then show ?thesis ..
    qed
  qed
qed

lemma untouched_from:
  assumes "untouched d w1 run" and "outside d w1 = outside d w"
    and "filter is_move (trace w1) = filter is_move (trace w)"
  shows "untouched d w run"
  using assms by (simp add: untouched_def)

lemma placed_from:
  assumes "placed d ft dest w1 evs run" and "outside d w1 = outside d w"
    and "filter is_pipeline (trace w1) = filter is_pipeline (trace w) @ pre"
  shows "placed d ft dest w (pre @ evs) run"
  using assms by (simp add: placed_def)

lemma audio_pass_outcome:
  assumes ap: "within d (audio_path nm)" and ft: "within d ft" and nd: "\<not> within d dest"
    and ne: "\<not> exists w dest"
  shows "untouched d w (audio_pass e w ff q d ms vf nm ft dest)
    \<or> (\<exists>as. placed d ft dest w
               [Normalize_audio as (audio_path nm) True,
                Merge (video_path nm) (audio_path nm) ft q True]
               (audio_pass e w ff q d ms vf nm ft dest))"
proof -
  let ?af = "case streams_get ms ''cameravoip'' of None \<Rightarrow> vf | Some fs \<Rightarrow> fs"
  obtain ok_a out_a where a: "normalize_audio_stream ff (files w) ?af (audio_path nm) = (ok_a, out_a)"
    by fastforce
  let ?w3 = "leave (audio_path nm) out_a (emit (Normalize_audio ?af (audio_path nm) ok_a) w)"
  have o3: "outside d ?w3 = outside d w" using ap by simp
  have m3: "filter is_move (trace ?w3) = filter is_move (trace w)" by simp
  show ?thesis
  proof (cases ok_a)
    case False
    with a have r: "audio_pass e w ff q d ms vf nm ft dest
      = (Returned False, cleanup_temp_directory e
           (log CRITICAL ''Failed during audio normalization pass.'' ?w3) d)"
      by (simp add: audio_pass_def)
    have "untouched d w (audio_pass e w ff q d ms vf nm ft dest)"
      unfolding r using o3 by (intro untouched_cleanup) simp_all
    then show ?thesis ..
  next
    case True
    with a have r: "audio_pass e w ff q d ms vf nm ft dest = final_merge e ?w3 ff q d nm ft dest"
      by (simp add: audio_pass_def)
    have p3: "filter is_pipeline (trace ?w3)
        = filter is_pipeline (trace w) @ [Normalize_audio ?af (audio_path nm) True]"
      using True by (simp add: is_pipeline_def)
    have "exists ?w3 dest = exists w dest"
      using o3 nd by (intro outside_exists[of d]) simp_all
    with ne have ne3: "\<not> exists ?w3 dest" by simp
    from final_merge_outcome[OF ft nd ne3, of e ff q nm] show ?thesis
    proof
      assume "untouched d ?w3 (final_merge e ?w3 ff q d nm ft dest)"
      then have "untouched d w (final_merge e ?w3 ff q d nm ft dest)"
        using o3 m3 by (rule untouched_from)
      then show ?thesis unfolding r ..
    next
      assume "placed d ft dest ?w3 [Merge (video_path nm) (audio_path nm) ft q True]
                (final_merge e ?w3 ff q d nm ft dest)"
      then have "placed d ft dest w
          ([Normalize_audio ?af (audio_path nm) True] @ [Merge (video_path nm) (audio_path nm) ft q True])
          (final_merge e ?w3 ff q d nm ft dest)"
        using o3 p3 by (rule placed_from)
      then show ?thesis unfolding r by auto
    qed
  qed
qed

lemma video_pass_outcome:
  assumes vp: "within d (video_path nm)" and ap: "within d (audio_path nm)"
    and ft: "within d ft" and nd: "\<not> within d dest" and ne: "\<not> exists w dest"
  shows "untouched d w (video_pass e w ff q d ms vf nm ft dest)
    \<or> (\<exists>as. placed d ft dest w
               [Normalize_video vf (video_path nm) q True,
                Normalize_audio as (audio_path nm) True,
                Merge (video_path nm) (audio_path nm) ft q True]
               (video_pass e w ff q d ms vf nm ft dest))"
proof -
  obtain ok_v out_v where v: "normalize_video_stream ff (files w) vf (video_path nm) q = (ok_v, out_v)"
    by fastforce
  let ?w2 = "leave (video_path nm) out_v (emit (Normalize_video vf (video_path nm) q ok_v) w)"
  have o2: "outside d ?w2 = outside d w" using vp by simp
  have m2: "filter is_move (trace ?w2) = filter is_move (trace w)" by simp
  show ?thesis
  proof (cases ok_v)
    case False
    with v have r: "video_pass e w ff q d ms vf nm ft dest
      = (Returned False, cleanup_temp_directory e
           (log CRITICAL ''Failed during video normalization pass.'' ?w2) d)"
      by (simp add: video_pass_def)
    have "untouched d w (video_pass e w ff q d ms vf nm ft dest)"
      unfolding r using o2 by (intro untouched_cleanup) simp_all
    then show ?thesis ..
  next
    case True
    with v have r: "video_pass e w ff q d ms vf nm ft dest = audio_pass e ?w2 ff q d ms vf nm ft dest"
      by (simp add: video_pass_def)
    have p2: "filter is_pipeline (trace ?w2)
        = filter is_pipeline (trace w) @ [Normalize_video vf (video_path nm) q True]"
      using True by (simp add: is_pipeline_def)
    have "exists ?w2 dest = exists w dest"
      using o2 nd by (intro outside_exists[of d]) simp_all
    with ne have ne2: "\<not> exists ?w2 dest" by simp
    from audio_pass_outcome[OF ap ft nd ne2, of e ff q ms vf] show ?thesis
    proof
      assume "untouched d ?w2 (audio_pass e ?w2 ff q d ms vf nm ft dest)"
      then have "untouched d w (audio_pass e ?w2 ff q d ms vf nm ft dest)"
        using o2 m2 by (rule untouched_from)
      then show ?thesis unfolding r ..
    next
      assume "\<exists>as. placed d ft dest ?w2
               [Normalize_audio as (audio_path nm) True,
                Merge (video_path nm) (audio_path nm) ft q True]
               (audio_pass e ?w2 ff q d ms vf nm ft dest)"
      then obtain as where "placed d ft dest ?w2
               [Normalize_audio as (audio_path nm) True,
                Merge (video_path nm) (audio_path nm) ft q True]
               (audio_pass e ?w2 ff q d ms vf nm ft dest)"
        by blast
      then have "placed d ft dest w
          ([Normalize_video vf (video_path nm) q True]
           @ [Normalize_audio as (audio_path nm) True,
              Merge (video_path nm) (audio_path nm) ft q True])
          (audio_pass e ?w2 ff q d ms vf nm ft dest)"
        using o2 p2 by (rule placed_from)
      then show ?thesis unfolding r by auto
    qed
  qed
qed

lemma two_pass_outcome:
  assumes d: "d \<noteq> []" and ft: "within d ft" and nd: "\<not> within d dest"
    and ne: "\<not> exists w dest"
  shows "untouched d w (two_pass_workflow e w ff q d ft dest)
    \<or> (\<exists>vf as. placed d ft dest w
               [Normalize_video vf (os_path_join d ''normalized_video.mkv'') q True,
                Normalize_audio as (os_path_join d ''normalized_audio.m4a'') True,
                Merge (os_path_join d ''normalized_video.mkv'')
                  (os_path_join d ''normalized_audio.m4a'') ft q True]
               (two_pass_workflow e w ff q d ft dest))"
proof -
  let ?nm = "\<lparr>video_path = os_path_join d ''normalized_video.mkv'',
              audio_path = os_path_join d ''normalized_audio.m4a''\<rparr>"
  have vp: "within d (video_path ?nm)" and ap: "within d (audio_path ?nm)"
    using d by (simp_all add: within_join startswith_def)
  obtain r1 w1 where F: "find_media_streams w d = (r1, w1)" by fastforce
  from find_media_streams_effect[of w d] F
  have w1: "files w1 = files w" "dirs w1 = dirs w"
    "filter is_move (trace w1) = filter is_move (trace w)"
    "filter is_pipeline (trace w1) = filter is_pipeline (trace w)"
    by (auto simp: is_pipeline_def)
  then have o1: "outside d w1 = outside d w" by (simp add: outside_def)
  from w1 ne have ne1: "\<not> exists w1 dest"
    using same_files_dirs(3)[of w1 w dest] by simp
  show ?thesis
  proof (cases r1)
    case (Inl err)
    with F have "two_pass_workflow e w ff q d ft dest = (Raised err, w1)"
      by (simp add: two_pass_workflow_def)
    with o1 w1 show ?thesis by (simp add: untouched_def)
  next
    case (Inr ms)
    show ?thesis
    proof (cases "streams_get ms ''screenshare''")
      case None
      with Inr F have r: "two_pass_workflow e w ff q d ft dest
        = (Returned False, cleanup_temp_directory e
            (log CRITICAL ''CRITICAL: 'screenshare' stream is missing. Cannot proceed.'' w1) d)"
        by (simp add: two_pass_workflow_def)
      have "untouched d w (two_pass_workflow e w ff q d ft dest)"
        unfolding r using o1 w1 by (intro untouched_cleanup) simp_all
      then show ?thesis ..
    next
      case (Some vf)
      with Inr F have r: "two_pass_workflow e w ff q d ft dest
          = video_pass e w1 ff q d ms vf ?nm ft dest"
        by (simp add: two_pass_workflow_def)
      from video_pass_outcome[OF vp ap ft nd ne1, of e ff q ms vf] show ?thesis
      proof
        assume "untouched d w1 (video_pass e w1 ff q d ms vf ?nm ft dest)"
        then have "untouched d w (video_pass e w1 ff q d ms vf ?nm ft dest)"
          using o1 w1(3) by (rule untouched_from)
        then show ?thesis unfolding r ..
      next
        assume "\<exists>as. placed d ft dest w1
               [Normalize_video vf (video_path ?nm) q True,
                Normalize_audio as (audio_path ?nm) True,
                Merge (video_path ?nm) (audio_path ?nm) ft q True]
               (video_pass e w1 ff q d ms vf ?nm ft dest)"
        then obtain as where "placed d ft dest w1
               [Normalize_video vf (video_path ?nm) q True,
                Normalize_audio as (audio_path ?nm) True,
                Merge (video_path ?nm) (audio_path ?nm) ft q True]
               (video_pass e w1 ff q d ms vf ?nm ft dest)"
          by blast
        then have "placed d ft dest w
               [Normalize_video vf (video_path ?nm) q True,
                Normalize_audio as (audio_path ?nm) True,
                Merge (video_path ?nm) (audio_path ?nm) ft q True]
               (video_pass e w1 ff q d ms vf ?nm ft dest)"
          using o1 w1(4) by (simp add: placed_def)
        then show ?thesis unfolding r by auto
      qed
    qed
  qed
qed

section \<open>The destination is written last\<close>

lemma job_without_identifier:
  assumes "setup_session w (cookies fo) = Inl err
     \<or> (setup_session w (cookies fo) = Inr sess \<and> fst (get_id_and_type e sess w url) = None)"
  shows "files (snd (process_single_url e w url cf fo ff q)) = files w
    \<and> filter is_move (trace (snd (process_single_url e w url cf fo ff q))) = filter is_move (trace w)"
  using assms
proof
  assume "setup_session w (cookies fo) = Inl err"
  then show ?thesis by (simp add: process_single_url_def)
next
  let ?w0 = "log INFO ''--- Processing URL: {url} ---'' w"
  assume a: "setup_session w (cookies fo) = Inr sess \<and> fst (get_id_and_type e sess w url) = None"
  obtain r1 w1 where R: "get_id_and_type e sess ?w0 url = (r1, w1)" by fastforce
  have "fst (get_id_and_type e sess ?w0 url) = fst (get_id_and_type e sess w url)"
    by (rule resolver_fst_indep) simp
  with a R have r1: "r1 = None" by simp
  from resolver_effect[of is_move e sess ?w0 url] R
  have "files w1 = files w" "filter is_move (trace w1) = filter is_move (trace w)" by simp_all
  with a R r1 show ?thesis by (simp add: process_single_url_def)
qed

lemma job_without_directory:
  assumes ss: "setup_session w (cookies fo) = Inr sess"
    and r: "fst (get_id_and_type e sess w url) = Some (rid, k)"
    and f: "isfile w (temp_output_dir_of fo rid)"
  shows "files (snd (process_single_url e w url cf fo ff q)) = files w
    \<and> filter is_move (trace (snd (process_single_url e w url cf fo ff q))) = filter is_move (trace w)"
proof -
  let ?w0 = "log INFO ''--- Processing URL: {url} ---'' w"
  obtain r1 w1 where R: "get_id_and_type e sess ?w0 url = (r1, w1)" by fastforce
  have "fst (get_id_and_type e sess ?w0 url) = fst (get_id_and_type e sess w url)"
    by (rule resolver_fst_indep) simp
  with r R have r1: "r1 = Some (rid, k)" by simp
  from r have ne: "rid \<noteq> []" by (rule resolver_nonempty)
  from resolver_effect[of is_move e sess ?w0 url] R
  have w1: "files w1 = files w" "filter is_move (trace w1) = filter is_move (trace w)" by simp_all
  with f have "isfile w1 (temp_output_dir_of fo rid)" by (simp add: isfile_def)
  then have "makedirs w1 (temp_output_dir_of fo rid) = Inl FileExistsError"
    by (simp add: makedirs_def)
  with ss R r1 ne w1 show ?thesis by (simp add: process_single_url_def Let_def)
qed

lemma job_outcome:
  assumes nos: "\<forall>s. CHR ''/'' \<notin> set (safe_filename fo s)"
    and ss: "setup_session w (cookies fo) = Inr sess"
    and r: "fst (get_id_and_type e sess w url) = Some (rid, k)"
  shows "untouched (temp_output_dir_of fo rid) w (process_single_url e w url cf fo ff q)
    \<or> (\<exists>vf as. placed (temp_output_dir_of fo rid) (final_video_path_temp_of fo cf rid)
                 (final_video_path_dest_of fo cf rid) w
                 [Normalize_video vf (os_path_join (temp_output_dir_of fo rid) ''normalized_video.mkv'') q True,
                  Normalize_audio as (os_path_join (temp_output_dir_of fo rid) ''normalized_audio.m4a'') True,
                  Merge (os_path_join (temp_output_dir_of fo rid) ''normalized_video.mkv'')
                    (os_path_join (temp_output_dir_of fo rid) ''normalized_audio.m4a'')
                    (final_video_path_temp_of fo cf rid) q True]
                 (process_single_url e w url cf fo ff q))"
proof (cases "isfile w (temp_output_dir_of fo rid)")
  case True
  from job_without_directory[OF ss r True, of cf ff q]
  have "untouched (temp_output_dir_of fo rid) w (process_single_url e w url cf fo ff q)"
    by (simp add: untouched_def outside_def)
  then show ?thesis ..
next
  case nf: False
  let ?temp = "temp_output_dir_of fo rid"
  let ?dest = "final_video_path_dest_of fo cf rid"
  let ?ft = "final_video_path_temp_of fo cf rid"
  let ?zip = "zip_path_of fo rid"
  let ?run = "process_single_url e w url cf fo ff q"
  from job_prefix[OF ss r nf, of cf ff q] obtain w3 where w3:
    "isdir w3 ?temp" "files w3 = files w"
    "\<forall>f. (\<forall>l m. \<not> f (Log l m)) \<longrightarrow>
        filter f (trace w3) = filter f (trace w) @ filter f [Http_get url, Makedirs ?temp]"
    "?run =
       (if exists w3 ?dest
        then (Returned True,
              cleanup_temp_directory e
                (log WARNING ''Output file '{output_filename}' already exists in the destination. Skipping.'' w3)
                ?temp)
        else if \<not> exists w3 ?zip
        then (case download_and_extract e sess w3 url rid k ?zip ?temp of
                (Some res, w4) \<Rightarrow> (res, w4)
              | (None, w4) \<Rightarrow> two_pass_workflow e w4 ff q ?temp ?ft ?dest)
        else two_pass_workflow e
               (log WARNING ''ZIP file already exists. Skipping download and extraction.'' w3)
               ff q ?temp ?ft ?dest)"
    by blast
  from w3(2) have o3: "outside ?temp w3 = outside ?temp w" by (simp add: outside_def)
  from w3(3) have m3: "filter is_move (trace w3) = filter is_move (trace w)" by simp
  from w3(3) have p3: "filter is_pipeline (trace w3) = filter is_pipeline (trace w)"
    by (simp add: is_pipeline_def)
  show ?thesis
  proof (cases "exists w3 ?dest")
    case True
    with w3(4) have run: "?run = (Returned True,
              cleanup_temp_directory e
                (log WARNING ''Output file '{output_filename}' already exists in the destination. Skipping.'' w3)
                ?temp)"
      by (simp only: if_True)
    have "untouched ?temp w ?run"
      unfolding run using o3 m3 by (intro untouched_cleanup) simp_all
    then show ?thesis ..
  next
    case ne3: False
    with w3(1) have "?dest \<noteq> ?temp" by (auto simp: exists_def)
    with nos have nd: "\<not> within ?temp ?dest" by (rule dest_outside_temp)
    from nos have ft: "within ?temp ?ft"
      unfolding final_video_path_temp_of_def
      by (intro within_join temp_nonempty not_startswith_slash) blast
    from nos have "CHR ''/'' \<notin> set (safe_filename fo rid @ ''.zip'')" by simp
    then have zp: "within ?temp ?zip"
      unfolding zip_path_of_def by (intro within_join temp_nonempty not_startswith_slash)
    have tail: "untouched ?temp w (two_pass_workflow e w4 ff q ?temp ?ft ?dest)
      \<or> (\<exists>vf as. placed ?temp ?ft ?dest w
                 [Normalize_video vf (os_path_join ?temp ''normalized_video.mkv'') q True,
                  Normalize_audio as (os_path_join ?temp ''normalized_audio.m4a'') True,
                  Merge (os_path_join ?temp ''normalized_video.mkv'')
                    (os_path_join ?temp ''normalized_audio.m4a'') ?ft q True]
                 (two_pass_workflow e w4 ff q ?temp ?ft ?dest))"
      if q4: "quiet ?temp w3 w4" for w4
    proof -
      from q4 nd ne3 have ne4: "\<not> exists w4 ?dest" by (simp add: quiet_exists)
      from q4 o3 have o4: "outside ?temp w4 = outside ?temp w" by (simp add: quiet_def)
      from q4 p3 have p4: "filter is_pipeline (trace w4) = filter is_pipeline (trace w) @ []"
        by (simp add: quiet_def)
      then have m4: "filter is_move (trace w4) = filter is_move (trace w)"
        using moves_of_pipeline[of "trace w4" "trace w" "[]"] by simp
      from two_pass_outcome[OF temp_nonempty ft nd ne4, of e ff q] show ?thesis
      proof
        assume "untouched ?temp w4 (two_pass_workflow e w4 ff q ?temp ?ft ?dest)"
        then have "untouched ?temp w (two_pass_workflow e w4 ff q ?temp ?ft ?dest)"
          using o4 m4 by (rule untouched_from)
        then show ?thesis ..
      next
        assume "\<exists>vf as. placed ?temp ?ft ?dest w4
                 [Normalize_video vf (os_path_join ?temp ''normalized_video.mkv'') q True,
                  Normalize_audio as (os_path_join ?temp ''normalized_audio.m4a'') True,
                  Merge (os_path_join ?temp ''normalized_video.mkv'')
                    (os_path_join ?temp ''normalized_audio.m4a'') ?ft q True]
                 (two_pass_workflow e w4 ff q ?temp ?ft ?dest)"
        then obtain vf as where "placed ?temp ?ft ?dest w4
                 [Normalize_video vf (os_path_join ?temp ''normalized_video.mkv'') q True,
                  Normalize_audio as (os_path_join ?temp ''normalized_audio.m4a'') True,
                  Merge (os_path_join ?temp ''normalized_video.mkv'')
                    (os_path_join ?temp ''normalized_audio.m4a'') ?ft q True]
                 (two_pass_workflow e w4 ff q ?temp ?ft ?dest)"
          by blast
        then have "placed ?temp ?ft ?dest w
                 [Normalize_video vf (os_path_join ?temp ''normalized_video.mkv'') q True,
                  Normalize_audio as (os_path_join ?temp ''normalized_audio.m4a'') True,
                  Merge (os_path_join ?temp ''normalized_video.mkv'')
                    (os_path_join ?temp ''normalized_audio.m4a'') ?ft q True]
                 (two_pass_workflow e w4 ff q ?temp ?ft ?dest)"
          using o4 p4 by (simp add: placed_def)
        then show ?thesis by blast
      qed
    qed
    show ?thesis
    proof (cases "exists w3 ?zip")
      case True
      with ne3 w3(4) have run: "?run = two_pass_workflow e
               (log WARNING ''ZIP file already exists. Skipping download and extraction.'' w3)
               ff q ?temp ?ft ?dest"
        by simp
      show ?thesis unfolding run by (rule tail) simp
    next
      case False
      obtain ro w4 where D: "download_and_extract e sess w3 url rid k ?zip ?temp = (ro, w4)"
        by fastforce
      have "quiet ?temp w3 (snd (download_and_extract e sess w3 url rid k ?zip ?temp))"
        using zp temp_nonempty by (intro quiet_download_and_extract) simp_all
      with D have q4: "quiet ?temp w3 w4" by simp
      show ?thesis
      proof (cases ro)
        case None
        with False ne3 w3(4) D have run: "?run = two_pass_workflow e w4 ff q ?temp ?ft ?dest"
          by simp
        show ?thesis unfolding run using q4 by (rule tail)
      next
        case (Some res)
        with False ne3 w3(4) D have run: "?run = (res, w4)" by simp
        from q4 o3 have o4: "outside ?temp w4 = outside ?temp w" by (simp add: quiet_def)
        from q4 p3 have "filter is_pipeline (trace w4) = filter is_pipeline (trace w) @ []"
          by (simp add: quiet_def)
        then have "filter is_move (trace w4) = filter is_move (trace w)"
          using moves_of_pipeline[of "trace w4" "trace w" "[]"] by simp
        with o4 have "untouched ?temp w ?run" unfolding run by (simp add: untouched_def)
        then show ?thesis ..
      qed
    qed
  qed
qed

text \<open>
  Claim C6. The working directory of a job lies in the download directory; what the claim
  excludes is a file of the job outside the working directory. The sanitizer of file
  names is taken to leave no slash in a name. Then every run of a job ends in one of two
  ways. Either no move is made and no file outside the working directory is changed:
  this is how every run ends in which the video pass, the audio pass or the merge fails,
  or in which an earlier step fails. Or the job returns \<open>True\<close>, the calls of the
  transcoder in the run are the video pass, the audio pass and the merge, in this order
  and each with success, the one move of the run comes after them and is the move of the
  merged file to the destination, and the destination is the one file that has changed
  outside the working directory. A job that finds no identifier changes no file at all.
\<close>

theorem destination_written_last:
  "(setup_session w (cookies fo) = Inl err
      \<or> (setup_session w (cookies fo) = Inr sess \<and> fst (get_id_and_type e sess w url) = None)
     \<longrightarrow> files (snd (process_single_url e w url cf fo ff q)) = files w
         \<and> filter is_move (trace (snd (process_single_url e w url cf fo ff q)))
             = filter is_move (trace w))
   \<and> ((\<forall>s. CHR ''/'' \<notin> set (safe_filename fo s))
        \<and> setup_session w (cookies fo) = Inr sess
        \<and> fst (get_id_and_type e sess w url) = Some (rid, k)
     \<longrightarrow> (outside (temp_output_dir_of fo rid) (snd (process_single_url e w url cf fo ff q))
             = outside (temp_output_dir_of fo rid) w
          \<and> filter is_move (trace (snd (process_single_url e w url cf fo ff q)))
             = filter is_move (trace w))
        \<or> (fst (process_single_url e w url cf fo ff q) = Returned True
            \<and> (\<exists>vf as c.
                  filter is_pipeline (trace (snd (process_single_url e w url cf fo ff q)))
                    = filter is_pipeline (trace w)
                        @ [Normalize_video vf
                             (os_path_join (temp_output_dir_of fo rid) ''normalized_video.mkv'') q True,
                           Normalize_audio as
                             (os_path_join (temp_output_dir_of fo rid) ''normalized_audio.m4a'') True,
                           Merge (os_path_join (temp_output_dir_of fo rid) ''normalized_video.mkv'')
                             (os_path_join (temp_output_dir_of fo rid) ''normalized_audio.m4a'')
                             (final_video_path_temp_of fo cf rid) q True,
                           Move (final_video_path_temp_of fo cf rid)
                             (final_video_path_dest_of fo cf rid)]
                  \<and> outside (temp_output_dir_of fo rid) (snd (process_single_url e w url cf fo ff q))
                      = AList.update (final_video_path_dest_of fo cf rid) c
                          (outside (temp_output_dir_of fo rid) w))))"
proof (intro conjI impI)
  assume "setup_session w (cookies fo) = Inl err
      \<or> (setup_session w (cookies fo) = Inr sess \<and> fst (get_id_and_type e sess w url) = None)"
  then have a: "files (snd (process_single_url e w url cf fo ff q)) = files w
    \<and> filter is_move (trace (snd (process_single_url e w url cf fo ff q))) = filter is_move (trace w)"
    by (rule job_without_identifier)
  from a show "files (snd (process_single_url e w url cf fo ff q)) = files w" ..
  from a show "filter is_move (trace (snd (process_single_url e w url cf fo ff q)))
             = filter is_move (trace w)" ..
next
  assume "(\<forall>s. CHR ''/'' \<notin> set (safe_filename fo s))
        \<and> setup_session w (cookies fo) = Inr sess
        \<and> fst (get_id_and_type e sess w url) = Some (rid, k)"
  then have nos: "\<forall>s. CHR ''/'' \<notin> set (safe_filename fo s)"
    and ss: "setup_session w (cookies fo) = Inr sess"
    and r: "fst (get_id_and_type e sess w url) = Some (rid, k)"
    by blast+
  from job_outcome[OF nos ss r, of cf ff q]
  show "(outside (temp_output_dir_of fo rid) (snd (process_single_url e w url cf fo ff q))
             = outside (temp_output_dir_of fo rid) w
          \<and> filter is_move (trace (snd (process_single_url e w url cf fo ff q)))
             = filter is_move (trace w))
        \<or> (fst (process_single_url e w url cf fo ff q) = Returned True
            \<and> (\<exists>vf as c.
                  filter is_pipeline (trace (snd (process_single_url e w url cf fo ff q)))
                    = filter is_pipeline (trace w)
                        @ [Normalize_video vf
                             (os_path_join (temp_output_dir_of fo rid) ''normalized_video.mkv'') q True,
                           Normalize_audio as
                             (os_path_join (temp_output_dir_of fo rid) ''normalized_audio.m4a'') True,
                           Merge (os_path_join (temp_output_dir_of fo rid) ''normalized_video.mkv'')
                             (os_path_join (temp_output_dir_of fo rid) ''normalized_audio.m4a'')
                             (final_video_path_temp_of fo cf rid) q True,
                           Move (final_video_path_temp_of fo cf rid)
                             (final_video_path_dest_of fo cf rid)]
                  \<and> outside (temp_output_dir_of fo rid) (snd (process_single_url e w url cf fo ff q))
                      = AList.update (final_video_path_dest_of fo cf rid) c
                          (outside (temp_output_dir_of fo rid) w)))"
    unfolding untouched_def placed_def by (elim disjE exE conjE) (simp, force)
qed

theorem destination_written_last_witness:
  "fst (process_single_url recorded blank ''https://my.adobeconnect.com/p123abc/'' None
          tidy_ops transcoder ''medium'') = Returned True
   \<and> (\<exists>vf as c.
         filter is_pipeline (trace (snd (process_single_url recorded blank
             ''https://my.adobeconnect.com/p123abc/'' None tidy_ops transcoder ''medium'')))
           = [Normalize_video vf ''/dl/adobe_connect_4711/normalized_video.mkv'' ''medium'' True,
              Normalize_audio as ''/dl/adobe_connect_4711/normalized_audio.m4a'' True,
              Merge ''/dl/adobe_connect_4711/normalized_video.mkv''
                ''/dl/adobe_connect_4711/normalized_audio.m4a''
                ''/dl/adobe_connect_4711/recording_4711.mp4'' ''medium'' True,
              Move ''/dl/adobe_connect_4711/recording_4711.mp4'' ''/dl/recording_4711.mp4'']
         \<and> outside ''/dl/adobe_connect_4711'' (snd (process_single_url recorded blank
               ''https://my.adobeconnect.com/p123abc/'' None tidy_ops transcoder ''medium''))
             = [(''/dl/recording_4711.mp4'', c)])"
proof -
  let ?u = "''https://my.adobeconnect.com/p123abc/''"
  let ?run = "process_single_url recorded blank ?u None tidy_ops transcoder ''medium''"
  have h1: "\<forall>s. CHR ''/'' \<notin> set (safe_filename tidy_ops s)"
    by (simp add: tidy_ops_def)
  have h2: "setup_session blank (cookies tidy_ops) = Inr anonymous"
    by code_simp
  have h3: "fst (get_id_and_type recorded anonymous blank ?u) = Some (''4711'', Sco_id)"
    by code_simp
  have h4: "filter is_move (trace (snd ?run)) \<noteq> filter is_move (trace blank)"
    by code_simp
  have p: "temp_output_dir_of tidy_ops ''4711'' = ''/dl/adobe_connect_4711''"
    "final_video_path_temp_of tidy_ops None ''4711'' = ''/dl/adobe_connect_4711/recording_4711.mp4''"
    "final_video_path_dest_of tidy_ops None ''4711'' = ''/dl/recording_4711.mp4''"
    "os_path_join ''/dl/adobe_connect_4711'' ''normalized_video.mkv''
       = ''/dl/adobe_connect_4711/normalized_video.mkv''"
    "os_path_join ''/dl/adobe_connect_4711'' ''normalized_audio.m4a''
       = ''/dl/adobe_connect_4711/normalized_audio.m4a''"
    by code_simp+
  have b: "trace blank = []" "outside ''/dl/adobe_connect_4711'' blank = []"
    by (simp_all add: blank_def outside_def)
  show ?thesis
    using destination_written_last [of blank tidy_ops FileNotFoundError anonymous recorded ?u
        None transcoder "''medium''" "''4711''" Sco_id] h1 h2 h3 h4
    unfolding p b by auto
qed

section \<open>Properties of the entry point\<close>

text \<open>
  Claim C8, as the specification states it, at an address without an identifier and a
  server that cannot be reached: the job of the single address fails, it returns
  \<open>False\<close>, and the exit status of the process is 0, the status of success.
\<close>

theorem failed_job_exits_zero:
  "fst (process_single_url offline
          (log INFO ''--- Adobe Downloader v17.0 (Batch Mode Edition) ---'' blank)
          ''https://my.adobeconnect.com/'' None plain_ops transcoder ''medium'') = Returned False
   \<and> fst (main offline blank
            \<lparr>arg_url = Some ''https://my.adobeconnect.com/'', arg_output = None,
             arg_cookies = None, arg_quality = ''medium''\<rparr>
            plain_ops (Some transcoder)) = 0"
  by code_simp

text \<open>
  Claim C8, amended. In single-URL mode \<^verbatim>\<open>main\<close> does not read what the job returns: with
  the transcoder found and a non-empty address, the exit status is 0 whenever the job
  returns, whether it returns \<open>True\<close> or \<open>False\<close>, and it is 1 only when an exception leaves
  the job. The status 1 of \<^verbatim>\<open>sys.exit(1)\<close> is reserved for a transcoder that is not found.
\<close>

theorem main_single_url_status:
  "(u \<noteq> [] \<and> fst (process_single_url e
                      (log INFO ''--- Adobe Downloader v17.0 (Batch Mode Edition) ---'' w)
                      u (arg_output a) (fo\<lparr>cookies := arg_cookies a\<rparr>) ffmpeg (arg_quality a))
                 = Returned b
      \<longrightarrow> fst (main e w (a\<lparr>arg_url := Some u\<rparr>) fo (Some ffmpeg)) = 0)
   \<and> fst (main e w a fo None) = 1"
  by (auto simp: main_def Let_def split: prod.splits outcome.splits)

theorem main_single_url_status_witness:
  "fst (main offline blank
          \<lparr>arg_url = Some ''https://my.adobeconnect.com/'', arg_output = None,
           arg_cookies = None, arg_quality = ''medium''\<rparr>
          plain_ops (Some transcoder)) = 0"
proof -
  let ?a = "\<lparr>arg_url = None, arg_output = None, arg_cookies = None, arg_quality = ''medium''\<rparr>"
  have h: "fst (process_single_url offline
                  (log INFO ''--- Adobe Downloader v17.0 (Batch Mode Edition) ---'' blank)
                  ''https://my.adobeconnect.com/'' (arg_output ?a)
                  (plain_ops\<lparr>cookies := arg_cookies ?a\<rparr>) transcoder (arg_quality ?a))
             = Returned False"
    by code_simp
  show ?thesis
    using main_single_url_status [of "''https://my.adobeconnect.com/''" offline blank ?a plain_ops
        transcoder False] h
    by simp
qed

end
